theory Spec2Isabelle
  imports Complex_Main "HOL-Library.Word"
begin

unbundle bit_operations_syntax

section \<open>The tilt-table sketch FuelTableCAN-Serial.cpp\<close>

text \<open>
  The sketch drives a tilt platform through a fixed sequence of pitch angles. It reads an
  inclinometer over a serial line (\<open>readPitch\<close>), a fuel sensor over CAN
  (\<open>readCANData\<close>), switches an actuator with three pins (\<open>moveMotorForward\<close>,
  \<open>moveMotorBackward\<close>, \<open>stopMotor\<close>) and prints one CSV row per sample
  (\<open>streamCSVData\<close>).

  Numbers. A byte is an \<open>8 word\<close>, \<open>uint16_t\<close> and \<open>int16_t\<close> are \<open>16 word\<close>
  (read with \<open>uint\<close> and \<open>sint\<close>), \<open>unsigned long\<close> is \<open>32 word\<close>. The pitch is a
  \<open>float\<close> in the sketch and a \<open>real\<close> here: the decoder only produces the values
  \<open>k * 180 / 32768\<close> for a 16-bit \<open>k\<close>, and the product \<open>k * 180\<close> has fewer than 24
  significant bits, so the binary floating-point result is that quotient exactly. The
  decimal thresholds of the sketch (\<open>0.1\<close>, \<open>4.9\<close>, \<open>5.1\<close>, ...) are taken at their decimal
  value.
\<close>

type_synonym byte = "8 word"

subsection \<open>Angle reader: \<open>readPitch\<close> on the bytes buffered by the serial port\<close>

text \<open>The value \<open>readPitch\<close> returns when it has no angle: \<open>-999.0\<close>.\<close>

definition NO_PITCH :: real where
  "NO_PITCH = - 999"

text \<open>\<open>int16_t pitch_raw = (buffer[3] << 8) | buffer[2];\<close>\<close>

definition pitch_raw :: "byte list \<Rightarrow> 16 word" where
  "pitch_raw buffer = push_bit 8 (ucast (buffer ! 3)) OR ucast (buffer ! 2)"

text \<open>
  What \<open>readPitch\<close> makes of the ten bytes of \<open>buffer\<close> once they are read:
  \<open>if (buffer[1] == 0x53) { ...; return pitch_raw / 32768.0 * 180.0; }\<close>, and
  \<open>return -999.0;\<close> otherwise.
\<close>

definition decode_angle :: "byte list \<Rightarrow> real" where
  "decode_angle buffer =
     (if buffer ! 1 = 0x53 then real_of_int (sint (pitch_raw buffer)) / 32768 * 180
      else NO_PITCH)"

text \<open>
  \<open>readPitch\<close> takes the bytes waiting in the receive buffer of \<open>WT901_SERIAL\<close> (oldest
  first) and returns the pitch together with the bytes still waiting afterwards.
  \<open>available() >= 11\<close> is the length test; \<open>read()\<close> removes the first byte;
  \<open>readBytes(&buffer[1], 9)\<close> removes the next nine, which are there because eleven were.
\<close>

definition readPitch :: "byte list \<Rightarrow> real \<times> byte list" where
  "readPitch rx =
     (if 11 \<le> length rx then
        (let header = hd rx; rx1 = tl rx in
         if header = 0x55 then
           (let buffer = header # take 9 rx1; rx2 = drop 9 rx1 in (decode_angle buffer, rx2))
         else (NO_PITCH, rx1))
      else (NO_PITCH, rx))"

text \<open>
  What the specification calls the signed 16-bit little-endian field, written with
  arithmetic only: the unsigned value of the two bytes, minus \<open>2^16\<close> from \<open>2^15\<close> on.
\<close>

definition rawInt16LE :: "byte \<Rightarrow> byte \<Rightarrow> int" where
  "rawInt16LE lsb msb =
     (let u = uint lsb + 256 * uint msb in if u < 32768 then u else u - 65536)"

text \<open>
  The serial line as a source of angles: \<open>arrive k\<close> are the bytes that reach the
  receive buffer between call \<open>k - 1\<close> and call \<open>k\<close> of \<open>readPitch\<close>.
\<close>

fun rx_before :: "(nat \<Rightarrow> byte list) \<Rightarrow> nat \<Rightarrow> byte list" where
  "rx_before arrive 0 = []"
| "rx_before arrive (Suc k) = snd (readPitch (rx_before arrive k @ arrive k))"

definition serial_pitch :: "(nat \<Rightarrow> byte list) \<Rightarrow> nat \<Rightarrow> real" where
  "serial_pitch arrive k = fst (readPitch (rx_before arrive k @ arrive k))"

subsection \<open>Bus telemetry reader: \<open>readCANData\<close>\<close>

record CANData =
  fuelLevel :: string
  internalTemp :: string
  externalTemp :: string
  externalSensorValid :: bool

text \<open>
  \<open>String(v)\<close> of the Arduino core for an unsigned 16-bit value: its decimal digits,
  most significant first, \<open>"0"\<close> for zero. The core library is not part of the sketch.
\<close>

definition digit_char :: "nat \<Rightarrow> char" where
  "digit_char d = ''0123456789'' ! d"

fun decimal :: "nat \<Rightarrow> string" where
  "decimal n = (if n < 10 then [digit_char n] else decimal (n div 10) @ [digit_char (n mod 10)])"

declare decimal.simps [simp del]

definition String_u16 :: "16 word \<Rightarrow> string" where
  "String_u16 v = decimal (unat v)"

text \<open>\<open>(rxBuf[i] << 8) | rxBuf[i + 1]\<close> stored in a \<open>uint16_t\<close>.\<close>

definition be16 :: "byte \<Rightarrow> byte \<Rightarrow> 16 word" where
  "be16 hi lo = push_bit 8 (ucast hi) OR ucast lo"

text \<open>\<open>static CANData lastValidData = {"No Data", "No Data", "No Data", false};\<close>\<close>

definition noData :: CANData where
  "noData = \<lparr>fuelLevel = ''No Data'', internalTemp = ''No Data'',
             externalTemp = ''No Data'', externalSensorValid = False\<rparr>"

text \<open>
  The body of \<open>if (len >= 6) { ... }\<close>: the assignments to the four fields of
  \<open>lastValidData\<close>, in the order of the sketch. \<open>rxBuf\<close> is the payload of the frame.
\<close>

definition store_frame :: "byte list \<Rightarrow> CANData \<Rightarrow> CANData" where
  "store_frame rxBuf d =
     (let level = be16 (rxBuf ! 0) (rxBuf ! 1);
          internal = be16 (rxBuf ! 2) (rxBuf ! 3);
          external = be16 (rxBuf ! 4) (rxBuf ! 5);
          d1 = d\<lparr>fuelLevel := String_u16 level\<rparr>;
          d2 = d1\<lparr>internalTemp := String_u16 internal\<rparr>
      in if external = 0xFFFF then d2\<lparr>externalTemp := ''Disabled'', externalSensorValid := False\<rparr>
         else if external = 0x8001 then d2\<lparr>externalTemp := ''Open Circuit'', externalSensorValid := False\<rparr>
         else if external = 0x8002 then d2\<lparr>externalTemp := ''Short Circuit'', externalSensorValid := False\<rparr>
         else d2\<lparr>externalTemp := String_u16 external, externalSensorValid := True\<rparr>)"

subsection \<open>The state of the sketch and its surroundings\<close>

datatype cmd = Forward | Backward | Stop

text \<open>
  The lines of the debug port \<open>Serial1\<close>, by kind. The routines print the same kinds of
  line with texts that differ in the name of the target only; the lines of \<open>setup\<close> and
  \<open>loop\<close> are \<open>Note\<close>s with their text.
\<close>

datatype debug_line =
    FailedInitialRead
  | InitialPitch real
  | MovingDown
  | MovingUp
  | LostReading
  | CurrentPitch real
  | Stabilized
  | ReturnComplete
  | NoCanWarning
  | Status "32 word" string string real string string
  | Note string

text \<open>
  What the sketch does to the outside, in order: a call of \<open>readPitch\<close>, a \<open>delay\<close>, a
  command to the actuator, a line of the CSV port \<open>Serial\<close> (the header, or a row with
  elapsed time, fuel level, internal and external temperature, pitch, phase and
  direction), a line of the debug port. A row holds the pitch itself; the sketch prints
  it with two decimals.
\<close>

datatype event =
    PitchRead
  | Delay nat
  | Motor cmd
  | CsvHeader
  | CsvRow "32 word" string string string real string string
  | Debug debug_line

text \<open>
  The surroundings. The sketch polls: what a poll returns depends on what has arrived
  by then, so each is given by the number of the call. \<open>pitchAt k\<close> is what call \<open>k\<close>
  of \<open>readPitch\<close> returns (for the serial line, \<open>serial_pitch arrive k\<close>); \<open>canAt k\<close>
  is the payload of the frame pending at call \<open>k\<close> of \<open>readCANData\<close>, if any;
  \<open>millisAt k\<close> is what read \<open>k\<close> of the clock returns; \<open>commandAt k\<close> is the line
  waiting on \<open>Serial\<close> at the \<open>k\<close>-th look of the idle \<open>loop\<close>, if any; \<open>serial1Up\<close> is
  the value of \<open>if (Serial1)\<close>. A busy-wait window
  \<open>while (millis() < end) { if (millis() - lastDataTime >= DATA_INTERVAL) { streamCSVData(..); lastDataTime = millis(); } }\<close>
  does nothing but call \<open>streamCSVData\<close> some number of times, which depends on the
  clock alone: \<open>firesAt k\<close> is that number for the \<open>k\<close>-th window. The clock reads of a
  window are not counted among the reads of \<open>millisAt\<close>.
\<close>

record world =
  pitchAt :: "nat \<Rightarrow> real"
  canAt :: "nat \<Rightarrow> byte list option"
  millisAt :: "nat \<Rightarrow> 32 word"
  firesAt :: "nat \<Rightarrow> nat"
  commandAt :: "nat \<Rightarrow> string option"
  serial1Up :: bool

text \<open>
  The state: the three actuator pins, the globals of the sketch, the static
  \<open>lastValidData\<close> of \<open>readCANData\<close>, the numbers of the calls made so far (they index
  the surroundings) and the events so far.
\<close>

record rig =
  MOTOR_IN1 :: bool
  MOTOR_IN2 :: bool
  MOTOR_ENA :: nat
  isMoving :: bool
  lastCanMsgTime :: "32 word"
  startTime :: "32 word"
  testComplete :: bool
  headersWritten :: bool
  lastValidData :: CANData
  pitchReads :: nat
  canReads :: nat
  clockReads :: nat
  windows :: nat
  commandLooks :: nat
  trace :: "event list"

definition power_on :: rig where
  "power_on = \<lparr>MOTOR_IN1 = False, MOTOR_IN2 = False, MOTOR_ENA = 0, isMoving = False,
     lastCanMsgTime = 0, startTime = 0, testComplete = False, headersWritten = False,
     lastValidData = noData, pitchReads = 0, canReads = 0, clockReads = 0, windows = 0,
     commandLooks = 0, trace = []\<rparr>"

definition emit :: "event \<Rightarrow> rig \<Rightarrow> rig" where
  "emit e s = s\<lparr>trace := trace s @ [e]\<rparr>"

definition debug :: "debug_line \<Rightarrow> rig \<Rightarrow> rig" where
  "debug l s = emit (Debug l) s"

definition delay :: "nat \<Rightarrow> rig \<Rightarrow> rig" where
  "delay ms s = emit (Delay ms) s"

definition millis :: "world \<Rightarrow> rig \<Rightarrow> 32 word \<times> rig" where
  "millis E s = (millisAt E (clockReads s), s\<lparr>clockReads := clockReads s + 1\<rparr>)"

definition pollPitch :: "world \<Rightarrow> rig \<Rightarrow> real \<times> rig" where
  "pollPitch E s = (pitchAt E (pitchReads s), emit PitchRead (s\<lparr>pitchReads := pitchReads s + 1\<rparr>))"

subsection \<open>Actuator driver\<close>

definition moveMotorForward :: "rig \<Rightarrow> rig" where
  "moveMotorForward s =
     emit (Motor Forward) (s\<lparr>MOTOR_IN1 := True, MOTOR_IN2 := False, MOTOR_ENA := 255, isMoving := True\<rparr>)"

definition moveMotorBackward :: "rig \<Rightarrow> rig" where
  "moveMotorBackward s =
     emit (Motor Backward) (s\<lparr>MOTOR_IN1 := False, MOTOR_IN2 := True, MOTOR_ENA := 255, isMoving := True\<rparr>)"

definition stopMotor :: "rig \<Rightarrow> rig" where
  "stopMotor s =
     emit (Motor Stop) (s\<lparr>MOTOR_IN1 := False, MOTOR_IN2 := False, MOTOR_ENA := 0, isMoving := False\<rparr>)"

text \<open>The state of the actuator, read off the pins; \<open>None\<close> for any other combination.\<close>

definition actuator :: "rig \<Rightarrow> cmd option" where
  "actuator s =
     (if MOTOR_IN1 s \<and> \<not> MOTOR_IN2 s \<and> MOTOR_ENA s = 255 then Some Forward
      else if \<not> MOTOR_IN1 s \<and> MOTOR_IN2 s \<and> MOTOR_ENA s = 255 then Some Backward
      else if \<not> MOTOR_IN1 s \<and> \<not> MOTOR_IN2 s \<and> MOTOR_ENA s = 0 then Some Stop
      else None)"

subsection \<open>\<open>readCANData\<close> and \<open>streamCSVData\<close> on the state\<close>

definition readCANData :: "world \<Rightarrow> rig \<Rightarrow> CANData \<times> rig" where
  "readCANData E s =
     (let s0 = s\<lparr>canReads := canReads s + 1\<rparr> in
      case canAt E (canReads s) of
        None \<Rightarrow> (lastValidData s0, s0)
      | Some rxBuf \<Rightarrow>
          (let (now, s1) = millis E s0;
               s2 = s1\<lparr>lastCanMsgTime := now\<rparr>;
               s3 = (if 6 \<le> length rxBuf
                     then s2\<lparr>lastValidData := store_frame rxBuf (lastValidData s2)\<rparr>
                     else s2)
           in (lastValidData s3, s3)))"

text \<open>\<open>const unsigned long DATA_INTERVAL = 10;\<close>\<close>

definition DATA_INTERVAL :: "32 word" where
  "DATA_INTERVAL = 10"

definition streamCSVData :: "world \<Rightarrow> string \<Rightarrow> string \<Rightarrow> rig \<Rightarrow> rig" where
  "streamCSVData E phase direction s =
     (let (pitch, s1) = pollPitch E s;
          (canData, s2) = readCANData E s1;
          (now, s3) = millis E s2;
          elapsedTime = now - startTime s3
      in if pitch \<noteq> NO_PITCH \<and> - 25 \<le> pitch \<and> pitch \<le> 25 then
           (let s4 = emit (CsvRow elapsedTime (fuelLevel canData) (internalTemp canData)
                             (externalTemp canData) pitch phase direction) s3
            in if serial1Up E \<and> elapsedTime mod 1000 < 10
               then debug (Status elapsedTime phase direction pitch
                             (fuelLevel canData) (internalTemp canData)) s4
               else s4)
         else s3)"

text \<open>A busy-wait window: its body fires \<open>firesAt E k\<close> times, \<open>k\<close> the window's number.\<close>

definition stream_window :: "world \<Rightarrow> string \<Rightarrow> string \<Rightarrow> rig \<Rightarrow> rig" where
  "stream_window E phase direction s =
     (streamCSVData E phase direction ^^ firesAt E (windows s)) (s\<lparr>windows := windows s + 1\<rparr>)"

subsection \<open>Pitch controller: the six \<open>adjustTo...Pitch\<close> routines\<close>

text \<open>
  The test the routines make on a reading:
  \<open>pitch == -999.0 || pitch < -25.0 || pitch > 25.0\<close>.
\<close>

definition invalid_pitch :: "real \<Rightarrow> bool" where
  "invalid_pitch pitch = (pitch = NO_PITCH \<or> pitch < - 25 \<or> 25 < pitch)"

definition maxTimeout :: nat where
  "maxTimeout = 1000"

text \<open>
  \<open>while (invalid(pitch) && timeoutCounter < maxTimeout) { pitch = readPitch();
  if (invalid(pitch)) { delay(10); timeoutCounter++; } }\<close>, the first argument being
  \<open>maxTimeout - timeoutCounter\<close>. A valid reading leaves the counter alone and ends the
  loop at its next test.
\<close>

fun acquire :: "nat \<Rightarrow> world \<Rightarrow> real \<Rightarrow> rig \<Rightarrow> real \<times> rig" where
  "acquire 0 E pitch s = (pitch, s)"
| "acquire (Suc n) E pitch s =
     (if invalid_pitch pitch then
        (let (p, s1) = pollPitch E s in
         if invalid_pitch p then acquire n E p (delay 10 s1) else (p, s1))
      else (pitch, s))"

datatype routine =
    AdjustToZero | ReturnToZero | AdjustToPosFive | AdjustToPosTen | AdjustToNegFive | AdjustToNegTen

text \<open>The macro \<open>abs(x)\<close> of the Arduino core: \<open>((x)>0?(x):-(x))\<close>.\<close>

definition abs_macro :: "real \<Rightarrow> real" where
  "abs_macro x = (if 0 < x then x else - x)"

text \<open>The condition of each routine's adjusting \<open>while\<close> loop.\<close>

fun off_target :: "routine \<Rightarrow> real \<Rightarrow> bool" where
  "off_target AdjustToZero pitch = (0.1 < abs_macro pitch)"
| "off_target ReturnToZero pitch = (0.1 < abs_macro pitch)"
| "off_target AdjustToPosFive pitch = (pitch < 4.9 \<or> 5.1 < pitch)"
| "off_target AdjustToPosTen pitch = (pitch < 9.9 \<or> 10.1 < pitch)"
| "off_target AdjustToNegFive pitch = (pitch < - 5.1 \<or> - 4.9 < pitch)"
| "off_target AdjustToNegTen pitch = (pitch < - 10.1 \<or> - 9.9 < pitch)"

text \<open>The \<open>if\<close> at the head of the loop body: which way the actuator is switched.\<close>

fun drive :: "routine \<Rightarrow> real \<Rightarrow> rig \<Rightarrow> rig" where
  "drive AdjustToZero pitch s =
     (if 0 < pitch then moveMotorForward (debug MovingDown s)
      else moveMotorBackward (debug MovingUp s))"
| "drive ReturnToZero pitch s =
     (if 0 < pitch then moveMotorForward (debug MovingDown s)
      else moveMotorBackward (debug MovingUp s))"
| "drive AdjustToPosFive pitch s =
     (if 5.1 < pitch then moveMotorForward (debug MovingDown s)
      else if pitch < 4.9 then moveMotorBackward (debug MovingUp s)
      else s)"
| "drive AdjustToPosTen pitch s =
     (if 10.1 < pitch then moveMotorForward (debug MovingDown s)
      else if pitch < 9.9 then moveMotorBackward (debug MovingUp s)
      else s)"
| "drive AdjustToNegFive pitch s =
     (if pitch < - 5.1 then moveMotorBackward (debug MovingUp s)
      else if - 4.9 < pitch then moveMotorForward (debug MovingDown s)
      else s)"
| "drive AdjustToNegTen pitch s =
     (if pitch < - 10.1 then moveMotorBackward (debug MovingUp s)
      else if - 9.9 < pitch then moveMotorForward (debug MovingDown s)
      else s)"

text \<open>The phase and direction the routine passes to \<open>streamCSVData\<close> while it moves.\<close>

fun phase_of :: "routine \<Rightarrow> string" where
  "phase_of AdjustToZero = []"
| "phase_of ReturnToZero = ''ReturnToZero''"
| "phase_of AdjustToPosFive = ''AdjustingToPos5''"
| "phase_of AdjustToPosTen = ''AdjustingToPos10''"
| "phase_of AdjustToNegFive = ''AdjustingToNeg5''"
| "phase_of AdjustToNegTen = ''AdjustingToNeg10''"

fun direction_of :: "routine \<Rightarrow> real \<Rightarrow> string" where
  "direction_of AdjustToZero pitch = []"
| "direction_of ReturnToZero pitch = (if 0 < pitch then ''Down'' else ''Up'')"
| "direction_of AdjustToPosFive pitch = (if 5.1 < pitch then ''Down'' else ''Up'')"
| "direction_of AdjustToPosTen pitch = (if 10.1 < pitch then ''Down'' else ''Up'')"
| "direction_of AdjustToNegFive pitch = (if pitch < - 5.1 then ''Up'' else ''Down'')"
| "direction_of AdjustToNegTen pitch = (if pitch < - 10.1 then ''Up'' else ''Down'')"

text \<open>
  The 200 ms with the actuator switched on and the 1000 ms after \<open>stopMotor\<close>:
  \<open>adjustToZeroPitch\<close> sleeps through both (\<open>delay(200)\<close>, \<open>delay(1000)\<close>), the other
  five routines stream telemetry in a busy-wait window.
\<close>

definition pulse :: "world \<Rightarrow> routine \<Rightarrow> real \<Rightarrow> rig \<Rightarrow> rig" where
  "pulse E r pitch s =
     (if r = AdjustToZero then delay 200 s
      else stream_window E (phase_of r) (direction_of r pitch) s)"

definition settle :: "world \<Rightarrow> routine \<Rightarrow> rig \<Rightarrow> rig" where
  "settle E r s =
     (if r = AdjustToZero then delay 1000 s
      else stream_window E (phase_of r) ''Stabilizing'' s)"

text \<open>
  The three ways a routine ends: the \<open>return\<close> after the first acquisition failed, the
  \<open>break\<close> after a later one failed, and the loop condition turning false. The routines
  return \<open>void\<close>; the model returns which way was taken and the last value of \<open>pitch\<close>.
\<close>

datatype outcome = InitialReadFailed | LostSignal | Reached

text \<open>
  The adjusting loop, \<open>pitch\<close> being the reading it starts from. It runs as long as the
  readings stay off target, which may be for ever: the first argument bounds the number
  of passes, and the result is \<open>None\<close> with the state reached when the bound is used up.
\<close>

fun adjust_loop :: "nat \<Rightarrow> world \<Rightarrow> routine \<Rightarrow> real \<Rightarrow> rig \<Rightarrow> outcome option \<times> real \<times> rig" where
  "adjust_loop 0 E r pitch s =
     (if off_target r pitch then (None, pitch, s) else (Some Reached, pitch, s))"
| "adjust_loop (Suc n) E r pitch s =
     (if off_target r pitch then
        (let s1 = drive r pitch s;
             s2 = pulse E r pitch s1;
             s3 = stopMotor s2;
             s4 = settle E r s3;
             (p, s5) = acquire maxTimeout E NO_PITCH s4
         in if invalid_pitch p then (Some LostSignal, p, debug LostReading s5)
            else adjust_loop n E r p (debug (CurrentPitch p) s5))
      else (Some Reached, pitch, s))"

text \<open>
  The end of \<open>returnToZeroPitch\<close>:
  \<open>for (int i = 0; i < 100; i++) { if (millis() - lastDataTime >= DATA_INTERVAL) {
  streamCSVData("Complete", "Zero"); lastDataTime = millis(); } delay(10); }\<close>
\<close>

fun final_samples :: "nat \<Rightarrow> world \<Rightarrow> 32 word \<Rightarrow> rig \<Rightarrow> rig" where
  "final_samples 0 E lastDataTime s = s"
| "final_samples (Suc n) E lastDataTime s =
     (let (now, s1) = millis E s in
      if DATA_INTERVAL \<le> now - lastDataTime then
        (let s2 = streamCSVData E ''Complete'' ''Zero'' s1;
             (t, s3) = millis E s2
         in final_samples n E t (delay 10 s3))
      else final_samples n E lastDataTime (delay 10 s1))"

text \<open>What follows the loop: \<open>stopMotor()\<close>, and the closing lines.\<close>

definition finish :: "world \<Rightarrow> routine \<Rightarrow> rig \<Rightarrow> rig" where
  "finish E r s =
     (let s1 = stopMotor s in
      if r = ReturnToZero then
        (let (t, s2) = millis E s1 in debug ReturnComplete (final_samples 100 E t s2))
      else debug Stabilized s1)"

definition adjust :: "nat \<Rightarrow> world \<Rightarrow> routine \<Rightarrow> rig \<Rightarrow> outcome option \<times> real \<times> rig" where
  "adjust fuel E r s =
     (let (pitch, s1) = acquire maxTimeout E NO_PITCH s in
      if invalid_pitch pitch then (Some InitialReadFailed, pitch, debug FailedInitialRead s1)
      else
        (case adjust_loop fuel E r pitch (debug (InitialPitch pitch) s1) of
           (None, p, s2) \<Rightarrow> (None, p, s2)
         | (Some out, p, s2) \<Rightarrow> (Some out, p, finish E r s2)))"

definition adjustToZeroPitch :: "nat \<Rightarrow> world \<Rightarrow> rig \<Rightarrow> outcome option \<times> real \<times> rig" where
  "adjustToZeroPitch fuel E = adjust fuel E AdjustToZero"

definition returnToZeroPitch :: "nat \<Rightarrow> world \<Rightarrow> rig \<Rightarrow> outcome option \<times> real \<times> rig" where
  "returnToZeroPitch fuel E = adjust fuel E ReturnToZero"

definition adjustToPosFivePitch :: "nat \<Rightarrow> world \<Rightarrow> rig \<Rightarrow> outcome option \<times> real \<times> rig" where
  "adjustToPosFivePitch fuel E = adjust fuel E AdjustToPosFive"

definition adjustToPosTenPitch :: "nat \<Rightarrow> world \<Rightarrow> rig \<Rightarrow> outcome option \<times> real \<times> rig" where
  "adjustToPosTenPitch fuel E = adjust fuel E AdjustToPosTen"

definition adjustToNegFivePitch :: "nat \<Rightarrow> world \<Rightarrow> rig \<Rightarrow> outcome option \<times> real \<times> rig" where
  "adjustToNegFivePitch fuel E = adjust fuel E AdjustToNegFive"

definition adjustToNegTenPitch :: "nat \<Rightarrow> world \<Rightarrow> rig \<Rightarrow> outcome option \<times> real \<times> rig" where
  "adjustToNegTenPitch fuel E = adjust fuel E AdjustToNegTen"

subsection \<open>Test sequencer: \<open>setup\<close> and \<open>loop\<close>\<close>

text \<open>
  A step of the sequencer returns the state and whether it ran to its end: it did not
  when an adjusting loop inside used up its bound, and then nothing after it runs.
\<close>

definition andThen :: "bool \<times> rig \<Rightarrow> (rig \<Rightarrow> bool \<times> rig) \<Rightarrow> bool \<times> rig" where
  "andThen r f = (if fst r then f (snd r) else r)"

text \<open>
  \<open>if (millis() - lastCanMsgTime > 60000) { Serial1.println("# WARNING: ...");
  lastCanMsgTime = millis(); }\<close>
\<close>

definition warn_if_stale :: "world \<Rightarrow> rig \<Rightarrow> rig" where
  "warn_if_stale E s =
     (let (now, s1) = millis E s in
      if 60000 < now - lastCanMsgTime s1 then
        (let s2 = debug NoCanWarning s1; (t, s3) = millis E s2 in s3\<lparr>lastCanMsgTime := t\<rparr>)
      else s1)"

text \<open>
  \<open>setup\<close>, from \<open>headersWritten = false\<close> on. What comes before (opening the ports,
  the pin modes, bringing up the CAN controller) is left out.
\<close>

definition setup_sketch :: "nat \<Rightarrow> world \<Rightarrow> rig \<Rightarrow> bool \<times> rig" where
  "setup_sketch fuel E s =
     (let s1 = s\<lparr>headersWritten := False\<rparr>;
          s2 = stopMotor s1;
          s3 = debug (Note ''# Adjusting actuator to achieve 0-degree pitch...'') s2
      in case adjustToZeroPitch fuel E s3 of
           (None, p, s4) \<Rightarrow> (False, s4)
         | (Some out, p, s4) \<Rightarrow>
             (let s5 = debug (Note ''# Pitch is now 0 degrees. Starting test motion...'') s4;
                  (t, s6) = millis E s5
              in (True, s6\<lparr>startTime := t, testComplete := False\<rparr>)))"

text \<open>
  One of the four blocks of \<open>loop\<close>: announce, adjust to the target, warn if the bus
  is stale, \<open>stopMotor()\<close>, announce, and stream for ten seconds in a busy-wait window.
\<close>

definition tilt_and_hold ::
  "nat \<Rightarrow> world \<Rightarrow> routine \<Rightarrow> string \<Rightarrow> string \<Rightarrow> string \<Rightarrow> rig \<Rightarrow> bool \<times> rig" where
  "tilt_and_hold fuel E r announce hold label s =
     (case adjust fuel E r (debug (Note announce) s) of
        (None, p, s1) \<Rightarrow> (False, s1)
      | (Some out, p, s1) \<Rightarrow>
          (True, stream_window E label ''None''
                   (debug (Note hold) (stopMotor (warn_if_stale E s1)))))"

definition return_and_finish :: "nat \<Rightarrow> world \<Rightarrow> rig \<Rightarrow> bool \<times> rig" where
  "return_and_finish fuel E s =
     (case returnToZeroPitch fuel E (debug (Note ''# Returning to zero pitch position'') s) of
        (None, p, s1) \<Rightarrow> (False, s1)
      | (Some out, p, s1) \<Rightarrow>
          (let s2 = debug (Note ''# Test cycle complete - System waiting for reset'') s1;
               s3 = debug (Note ''# Send 'reset' command to begin a new test'') s2
           in (True, warn_if_stale E (s3\<lparr>testComplete := True\<rparr>))))"

text \<open>
  \<open>loop\<close>. Once the test is complete it looks for a line on \<open>Serial\<close>: \<open>reset\<close> runs
  \<open>setup\<close> again, anything else (or nothing) is a \<open>delay(100)\<close>.
\<close>

definition loop_sketch :: "nat \<Rightarrow> world \<Rightarrow> rig \<Rightarrow> bool \<times> rig" where
  "loop_sketch fuel E s =
     (if testComplete s then
        (let s1 = s\<lparr>commandLooks := commandLooks s + 1\<rparr> in
         case commandAt E (commandLooks s) of
           None \<Rightarrow> (True, delay 100 s1)
         | Some command \<Rightarrow>
             if command = ''reset''
             then setup_sketch fuel E (debug (Note ''# Resetting system...'') s1)
             else (True, delay 100 s1))
      else
        (let s1 = (if \<not> headersWritten s then (emit CsvHeader s)\<lparr>headersWritten := True\<rparr> else s) in
         andThen (andThen (andThen (andThen
           (tilt_and_hold fuel E AdjustToPosFive ''# Raising to +5''
              ''# Starting first stationary period'' ''Stationary1'' s1)
           (tilt_and_hold fuel E AdjustToNegFive ''# Lowering to -5''
              ''# Starting second stationary period'' ''Stationary2''))
           (tilt_and_hold fuel E AdjustToPosTen ''# Raising to +10''
              ''# Starting third stationary period'' ''Stationary3''))
           (tilt_and_hold fuel E AdjustToNegTen ''# Lowering to -10''
              ''# Starting fourth stationary period'' ''Stationary4''))
           (return_and_finish fuel E)))"

text \<open>The sketch from power-on: \<open>setup\<close>, then \<open>loop\<close> the given number of times.\<close>

fun sketch :: "nat \<Rightarrow> world \<Rightarrow> nat \<Rightarrow> rig \<Rightarrow> bool \<times> rig" where
  "sketch fuel E 0 s = setup_sketch fuel E s"
| "sketch fuel E (Suc n) s = andThen (sketch fuel E n s) (loop_sketch fuel E)"

subsection \<open>Reading the events\<close>

text \<open>The commands to the actuator among the events, in order.\<close>

fun cmds :: "event list \<Rightarrow> cmd list" where
  "cmds [] = []"
| "cmds (Motor c # es) = c # cmds es"
| "cmds (e # es) = cmds es"

text \<open>The rows of the CSV port among the events: pitch, phase and direction of each.\<close>

fun rows :: "event list \<Rightarrow> (real \<times> string \<times> string) list" where
  "rows [] = []"
| "rows (CsvRow t fuel internal external pitch phase direction # es) = (pitch, phase, direction) # rows es"
| "rows (e # es) = rows es"

text \<open>The fuel and temperature columns of the rows.\<close>

fun columns :: "event list \<Rightarrow> (string \<times> string \<times> string) list" where
  "columns [] = []"
| "columns (CsvRow t fuel internal external pitch phase direction # es) = (fuel, internal, external) # columns es"
| "columns (e # es) = columns es"

text \<open>A sequence of calls of \<open>streamCSVData\<close>, each with its phase and direction.\<close>

fun emits :: "world \<Rightarrow> (string \<times> string) list \<Rightarrow> rig \<Rightarrow> rig" where
  "emits E [] s = s"
| "emits E ((phase, direction) # calls) s = emits E calls (streamCSVData E phase direction s)"

text \<open>No command that switches the actuator on is directly followed by another one.\<close>

fun stop_between :: "cmd list \<Rightarrow> bool" where
  "stop_between (c # d # cs) = ((c = Stop \<or> d = Stop) \<and> stop_between (d # cs))"
| "stop_between cs = True"

text \<open>
  The state of the actuator in the course of a run. A command is the only step that
  writes the pins, and each command is an event: carrying out, from the state a run
  began in, the commands among the first \<open>k\<close> events gives the pins as they are after
  these events.
\<close>

fun carry_out :: "cmd \<Rightarrow> rig \<Rightarrow> rig" where
  "carry_out Forward s = moveMotorForward s"
| "carry_out Backward s = moveMotorBackward s"
| "carry_out Stop s = stopMotor s"

fun replay :: "event list \<Rightarrow> rig \<Rightarrow> rig" where
  "replay [] s = s"
| "replay (Motor c # es) s = replay es (carry_out c s)"
| "replay (e # es) s = replay es s"

definition actuator_at :: "rig \<Rightarrow> event list \<Rightarrow> nat \<Rightarrow> cmd option" where
  "actuator_at s0 tr k = actuator (replay (take k tr) s0)"

text \<open>The decimal digits read back, for stating that \<open>String\<close> keeps the value.\<close>

definition digit_value :: "char \<Rightarrow> nat" where
  "digit_value c = of_char c - 48"

definition decimal_value :: "string \<Rightarrow> nat" where
  "decimal_value cs = foldl (\<lambda>a c. 10 * a + digit_value c) 0 cs"

text \<open>
  Surroundings to try the sketch in: nothing on the serial line, no frame on the bus, a
  clock that stands still, windows that never fire, no command.
\<close>

definition silent :: world where
  "silent = \<lparr>pitchAt = (\<lambda>k. NO_PITCH), canAt = (\<lambda>k. None), millisAt = (\<lambda>k. 0),
              firesAt = (\<lambda>k. 0), commandAt = (\<lambda>k. None), serial1Up = True\<rparr>"

text \<open>
  Surroundings in which \<open>setup\<close> drives both ways: the table reads 1 degree, then -1
  degree, then level.
\<close>

definition both_ways :: world where
  "both_ways = silent\<lparr>pitchAt := \<lambda>k. if k = 0 then 1 else if k = 1 then - 1 else 0\<rparr>"

subsection \<open>Properties of a whole run\<close>

text \<open>
  A property of the events so far, the cached frame and the state of the actuator
  holds in a state. \<open>steady E P Q\<close>: \<open>P\<close> (the actuator at rest) and \<open>Q\<close> (the actuator
  possibly switched on) are kept by every step the sketch is made of; a command that
  switches the actuator on leads from \<open>P\<close> to \<open>Q\<close>, and \<open>stopMotor\<close> from \<open>Q\<close> back to \<open>P\<close>.
\<close>

fun quiet :: "event \<Rightarrow> bool" where
  "quiet (Motor c) = False"
| "quiet (CsvRow t fuel internal external pitch phase direction) = False"
| "quiet e = True"

definition holds :: "(event list \<Rightarrow> CANData \<Rightarrow> cmd option \<Rightarrow> bool) \<Rightarrow> rig \<Rightarrow> bool" where
  "holds P s = P (trace s) (lastValidData s) (actuator s)"

definition steady ::
  "world \<Rightarrow> (event list \<Rightarrow> CANData \<Rightarrow> cmd option \<Rightarrow> bool) \<Rightarrow> (event list \<Rightarrow> CANData \<Rightarrow> cmd option \<Rightarrow> bool) \<Rightarrow> bool" where
  "steady E P Q \<longleftrightarrow>
     (\<forall>tr d a. P tr d a \<longrightarrow> Q tr d a) \<and>
     (\<forall>tr d a e. quiet e \<longrightarrow> P tr d a \<longrightarrow> P (tr @ [e]) d a) \<and>
     (\<forall>tr d a e. quiet e \<longrightarrow> Q tr d a \<longrightarrow> Q (tr @ [e]) d a) \<and>
     (\<forall>tr d a. P tr d a \<longrightarrow> Q (tr @ [Motor Forward]) d (Some Forward)) \<and>
     (\<forall>tr d a. P tr d a \<longrightarrow> Q (tr @ [Motor Backward]) d (Some Backward)) \<and>
     (\<forall>tr d a. Q tr d a \<longrightarrow> P (tr @ [Motor Stop]) d (Some Stop)) \<and>
     (\<forall>s ph dir. holds P s \<longrightarrow> holds P (streamCSVData E ph dir s)) \<and>
     (\<forall>s ph dir. holds Q s \<longrightarrow> holds Q (streamCSVData E ph dir s))"

text \<open>At call \<open>k\<close> of \<open>readCANData\<close> no frame of six bytes or more is pending.\<close>

definition no_full_frame :: "world \<Rightarrow> nat \<Rightarrow> bool" where
  "no_full_frame E k = (case canAt E k of None \<Rightarrow> True | Some rxBuf \<Rightarrow> length rxBuf < 6)"

text \<open>What \<open>n\<close> calls of \<open>readCANData\<close> in a row return.\<close>

fun poll_bus :: "world \<Rightarrow> nat \<Rightarrow> rig \<Rightarrow> CANData list" where
  "poll_bus E 0 s = []"
| "poll_bus E (Suc n) s = fst (readCANData E s) # poll_bus E n (snd (readCANData E s))"

text \<open>
  The same surroundings with every reading outside -25 to 25 degrees replaced by the
  no-angle value.
\<close>

definition discard_outside :: "world \<Rightarrow> world" where
  "discard_outside E =
     E\<lparr>pitchAt := \<lambda>k. if pitchAt E k < - 25 \<or> 25 < pitchAt E k then NO_PITCH else pitchAt E k\<rparr>"

subsection \<open>The targets of the specification\<close>

text \<open>The angle each routine steers to, as the specification's control targets name it.\<close>

fun target_angle :: "routine \<Rightarrow> real" where
  "target_angle AdjustToZero = 0"
| "target_angle ReturnToZero = 0"
| "target_angle AdjustToPosFive = 5"
| "target_angle AdjustToPosTen = 10"
| "target_angle AdjustToNegFive = - 5"
| "target_angle AdjustToNegTen = - 10"

section \<open>The angle reader\<close>

lemma uint_byte_less: "uint (b :: byte) < 256"
  using uint_bounded [of b] by simp

lemma uint_ucast_byte: "uint (ucast (b :: byte) :: 16 word) = uint b"
  by (simp add: uint_up_ucast is_up)

lemma uint_push_byte: "uint (push_bit 8 (ucast (b :: byte)) :: 16 word) = 256 * uint b"
  using uint_byte_less [of b]
  by (simp add: push_bit_eq_mult uint_word_ariths uint_ucast_byte)

lemma or_is_add:
  "(push_bit 8 (ucast (hi :: byte)) OR ucast (lo :: byte) :: 16 word)
     = push_bit 8 (ucast hi) + ucast lo"
  by (rule disjunctive_add [symmetric]) (auto simp: bit_simps dest: bit_imp_le_length)

lemma uint_pitch_raw: "uint (pitch_raw buffer) = uint (buffer ! 2) + 256 * uint (buffer ! 3)"
  using uint_byte_less [of "buffer ! 2"] uint_byte_less [of "buffer ! 3"]
  by (simp add: pitch_raw_def or_is_add uint_word_ariths uint_ucast_byte uint_push_byte)

lemma sint_16: "sint (w :: 16 word) = (if uint w < 32768 then uint w else uint w - 65536)"
proof (cases "uint w < 32768")
  case True
  then show ?thesis
    using uint_ge_0 [of w]
    by (simp add: sint_uint signed_take_bit_eq_take_bit_shift take_bit_eq_mod)
next
  case False
  define x where "x = uint w - 32768"
  have "uint w < 65536" using uint_bounded [of w] by simp
  with False have x: "0 \<le> x" "x < 65536" "uint w + 32768 = x + 65536"
    by (simp_all add: x_def)
  have "(x + 65536) mod 65536 = x"
    using x(1,2) by simp
  then have "(uint w + 32768) mod 65536 = uint w - 32768"
    by (simp add: x(3)) (simp add: x_def)
  with False show ?thesis
    by (simp add: sint_uint signed_take_bit_eq_take_bit_shift take_bit_eq_mod)
qed

lemma sint_pitch_raw: "sint (pitch_raw buffer) = rawInt16LE (buffer ! 2) (buffer ! 3)"
  by (simp add: sint_16 uint_pitch_raw rawInt16LE_def Let_def)

lemma buffer_take: "11 \<le> length rx \<Longrightarrow> hd rx = h \<Longrightarrow> h # take 9 (tl rx) = take 10 rx"
  by (cases rx) auto

lemma rest_drop: "drop 9 (tl rx) = drop 10 rx"
  by (cases rx) simp_all

lemma readPitch_short: "length rx < 11 \<Longrightarrow> readPitch rx = (NO_PITCH, rx)"
  by (simp add: readPitch_def)

lemma readPitch_no_sync:
  "11 \<le> length rx \<Longrightarrow> hd rx \<noteq> 0x55 \<Longrightarrow> readPitch rx = (NO_PITCH, drop 1 rx)"
  by (simp add: readPitch_def drop_Suc)

lemma readPitch_wrong_type:
  "11 \<le> length rx \<Longrightarrow> hd rx = 0x55 \<Longrightarrow> rx ! 1 \<noteq> 0x53 \<Longrightarrow>
     readPitch rx = (NO_PITCH, drop 10 rx)"
  by (simp add: readPitch_def decode_angle_def Let_def buffer_take rest_drop)

lemma readPitch_angle:
  "11 \<le> length rx \<Longrightarrow> hd rx = 0x55 \<Longrightarrow> rx ! 1 = 0x53 \<Longrightarrow>
     readPitch rx = (real_of_int (rawInt16LE (rx ! 2) (rx ! 3)) / 32768 * 180, drop 10 rx)"
  by (simp add: readPitch_def decode_angle_def Let_def sint_pitch_raw buffer_take rest_drop)

lemma decode_angle_frame:
  "buffer ! 1 = 0x53 \<Longrightarrow>
     decode_angle buffer = real_of_int (rawInt16LE (buffer ! 2) (buffer ! 3)) / 32768 * 180"
  by (simp add: decode_angle_def sint_pitch_raw)

lemma readPitch_frame:
  assumes "length buffer = 10" and "buffer ! 0 = 0x55" and "rest \<noteq> []"
  shows "readPitch (buffer @ rest) = (decode_angle buffer, rest)"
proof -
  from assms(1) have ne: "buffer \<noteq> []" by auto
  from assms(3) have "1 \<le> length rest" by (cases rest) simp_all
  with assms(1) have len: "11 \<le> length (buffer @ rest)" by simp
  from ne assms(1,2) have hd: "hd (buffer @ rest) = 0x55" by (simp add: hd_conv_nth nth_append)
  from assms(1) have "take 10 (buffer @ rest) = buffer" "drop 10 (buffer @ rest) = rest"
    by simp_all
  with len hd show ?thesis
    by (simp add: readPitch_def Let_def buffer_take [OF len hd] rest_drop)
qed

text \<open>
  A decoded angle lies between -180 and 180 degrees, so it is never the no-angle value.
\<close>

lemma decode_angle_range:
  assumes "buffer ! 1 = 0x53"
  shows "- 180 \<le> decode_angle buffer \<and> decode_angle buffer < 180"
proof -
  have lo: "0 \<le> uint (pitch_raw buffer)" by simp
  have hi: "uint (pitch_raw buffer) < 65536"
    using uint_bounded [of "pitch_raw buffer"] by simp
  have "- 32768 \<le> sint (pitch_raw buffer) \<and> sint (pitch_raw buffer) < 32768"
  proof (cases "uint (pitch_raw buffer) < 32768")
    case True
    from lo have "- 32768 \<le> uint (pitch_raw buffer)" by linarith
    with True show ?thesis by (simp add: sint_16)
  next
    case False
    with hi show ?thesis by (simp add: sint_16)
  qed
  then have "real_of_int (- 32768) \<le> real_of_int (sint (pitch_raw buffer)) \<and>
      real_of_int (sint (pitch_raw buffer)) < real_of_int 32768"
    by (simp only: of_int_le_iff of_int_less_iff)
  then have "- 32768 \<le> (signed (pitch_raw buffer) :: real) \<and>
      (signed (pitch_raw buffer) :: real) < 32768"
    by simp
  with assms show ?thesis
    by (simp add: decode_angle_def)
qed

lemma readPitch_value:
  "fst (readPitch rx) = NO_PITCH \<or> (- 180 \<le> fst (readPitch rx) \<and> fst (readPitch rx) < 180)"
proof (cases "11 \<le> length rx \<and> hd rx = 0x55 \<and> (hd rx # take 9 (tl rx)) ! 1 = 0x53")
  case True
  then have "fst (readPitch rx) = decode_angle (hd rx # take 9 (tl rx))"
    by (simp add: readPitch_def Let_def)
  with True decode_angle_range [of "hd rx # take 9 (tl rx)"] show ?thesis
    by simp
next
  case False
  then have "fst (readPitch rx) = NO_PITCH"
    by (auto simp: readPitch_def Let_def decode_angle_def)
  then show ?thesis by simp
qed

lemma serial_pitch_value:
  "serial_pitch arrive k = NO_PITCH \<or>
     (- 180 \<le> serial_pitch arrive k \<and> serial_pitch arrive k < 180)"
  unfolding serial_pitch_def by (rule readPitch_value)

text \<open>
  The readings the decoder can return are the multiples of \<open>180 / 32768\<close>. Each is more
  than \<open>1 / 20000\<close> of a degree away from every threshold the sketch compares a pitch with
  (0.1, 4.9, 5.1, 9.9, 10.1, 25 and their negatives, \<open>n / 10\<close> below), which is far more
  than a threshold moves when it is rounded to the nearest binary floating-point number:
  on decoded readings every comparison of the sketch comes out as it does here.
\<close>

lemma residue_gap:
  fixes k c :: int
  assumes "4 < c mod 450" and "c mod 450 < 446"
  shows "5 \<le> \<bar>450 * k - c\<bar>"
proof (rule ccontr)
  assume "\<not> 5 \<le> \<bar>450 * k - c\<bar>"
  define m where "m = c - 450 * k"
  with \<open>\<not> 5 \<le> \<bar>450 * k - c\<bar>\<close> have "- 5 < m" and "m < 5" by simp_all
  then have "m = - 4 \<or> m = - 3 \<or> m = - 2 \<or> m = - 1 \<or> m = 0 \<or> m = 1 \<or> m = 2 \<or> m = 3 \<or> m = 4"
    by arith
  then have "m mod 450 \<le> 4 \<or> 446 \<le> m mod 450"
    by auto
  moreover have "c = 450 * k + m" by (simp add: m_def)
  then have "c mod 450 = m mod 450" by simp
  ultimately show False using assms by simp
qed

lemma grid_gap:
  fixes k n :: int
  assumes "n \<in> {1, 49, 51, 99, 101, 250, - 1, - 49, - 51, - 99, - 101, - 250}"
  shows "5 \<le> \<bar>450 * k - 8192 * n\<bar>"
  using assms by (auto intro!: residue_gap)

lemma decoded_clear_of_thresholds:
  fixes k n :: int
  assumes "n \<in> {1, 49, 51, 99, 101, 250, - 1, - 49, - 51, - 99, - 101, - 250}"
  shows "1 / 20000 < \<bar>real_of_int k / 32768 * 180 - real_of_int n / 10\<bar>"
proof -
  define x where "x = real_of_int (450 * k - 8192 * n)"
  have eq: "real_of_int k / 32768 * 180 - real_of_int n / 10 = x / 81920"
    by (simp add: x_def)
  have "real_of_int 5 \<le> real_of_int \<bar>450 * k - 8192 * n\<bar>"
    using grid_gap [OF assms, of k] by (simp only: of_int_le_iff)
  then have "5 \<le> \<bar>x\<bar>"
    by (simp add: x_def)
  then have "5 / 81920 \<le> \<bar>x\<bar> / 81920"
    by simp
  moreover have "(1 :: real) / 20000 < 5 / 81920"
    by simp
  ultimately have "1 / 20000 < \<bar>x\<bar> / 81920"
    by linarith
  then show ?thesis
    by (simp only: eq abs_divide)
qed

text \<open>
  C7, as the sketch has it. \<open>readPitch\<close> asks for eleven buffered bytes. With fewer it
  returns the no-angle value and leaves the buffer as it is. With eleven or more, a first
  byte other than \<open>0x55\<close> costs that one byte only (the reader resynchronises byte by
  byte); a first byte \<open>0x55\<close> followed by a type byte other than \<open>0x53\<close> costs the ten
  bytes read. Both return the no-angle value.
\<close>

theorem readPitch_consumption:
  "(length rx < 11 \<longrightarrow> readPitch rx = (NO_PITCH, rx)) \<and>
   (11 \<le> length rx \<and> hd rx \<noteq> 0x55 \<longrightarrow> readPitch rx = (NO_PITCH, drop 1 rx)) \<and>
   (11 \<le> length rx \<and> hd rx = 0x55 \<and> rx ! 1 \<noteq> 0x53 \<longrightarrow> readPitch rx = (NO_PITCH, drop 10 rx))"
  by (simp add: readPitch_short readPitch_no_sync readPitch_wrong_type)

theorem readPitch_consumption_witness:
  "readPitch [0x55, 0x53, 1] = (NO_PITCH, [0x55, 0x53, 1]) \<and>
   readPitch [0, 0x55, 0x53, 1, 2, 3, 4, 5, 6, 7, 8] = (NO_PITCH, [0x55, 0x53, 1, 2, 3, 4, 5, 6, 7, 8]) \<and>
   readPitch [0x55, 0x51, 1, 2, 3, 4, 5, 6, 7, 8, 9] = (NO_PITCH, [9])"
  using readPitch_consumption [of "[0x55, 0x53, 1]"]
    readPitch_consumption [of "[0, 0x55, 0x53, 1, 2, 3, 4, 5, 6, 7, 8]"]
    readPitch_consumption [of "[0x55, 0x51, 1, 2, 3, 4, 5, 6, 7, 8, 9]"]
  by simp

text \<open>
  C7 as stated fails: with a full frame buffered and a wrong first byte, the bytes of a
  whole frame (ten, or eleven with the byte the length test waits for) are not consumed.
  Eleven bytes starting with \<open>0x00\<close> lose one byte.
\<close>

theorem readPitch_whole_frame_counterexample:
  "\<not> (\<forall>rx. 11 \<le> length rx \<and> (hd rx \<noteq> 0x55 \<or> rx ! 1 \<noteq> 0x53) \<longrightarrow>
          snd (readPitch rx) = drop 10 rx \<or> snd (readPitch rx) = drop 11 rx)"
proof
  assume all: "\<forall>rx. 11 \<le> length rx \<and> (hd rx \<noteq> 0x55 \<or> rx ! 1 \<noteq> 0x53) \<longrightarrow>
          snd (readPitch rx) = drop 10 rx \<or> snd (readPitch rx) = drop 11 rx"
  have "snd (readPitch [0, 0x55, 0x53, 1, 2, 3, 4, 5, 6, 7, 8]) = [0x55, 0x53, 1, 2, 3, 4, 5, 6, 7, 8]"
    by (simp add: readPitch_def)
  with all [rule_format, of "[0, 0x55, 0x53, 1, 2, 3, 4, 5, 6, 7, 8]"] show False
    by simp
qed

section \<open>The bus telemetry reader\<close>

lemma uint_be16: "uint (be16 hi lo) = 256 * uint hi + uint lo"
  using uint_byte_less [of hi] uint_byte_less [of lo]
  by (simp add: be16_def or_is_add uint_word_ariths uint_ucast_byte uint_push_byte)

lemma digit_value_char: "d < 10 \<Longrightarrow> digit_value (digit_char d) = d"
proof -
  assume "d < 10"
  then have "d \<in> {0, 1, 2, 3, 4, 5, 6, 7, 8, 9}" by auto
  then show ?thesis by (auto simp: digit_char_def digit_value_def)
qed

lemma decimal_value_snoc: "decimal_value (cs @ [c]) = 10 * decimal_value cs + digit_value c"
  by (simp add: decimal_value_def)

lemma decimal_value_decimal: "decimal_value (decimal n) = n"
proof (induction n rule: decimal.induct)
  case (1 n)
  show ?case
  proof (cases "n < 10")
    case True
    then show ?thesis
      by (subst decimal.simps) (simp add: decimal_value_def digit_value_char)
  next
    case False
    with 1 show ?thesis
      by (subst decimal.simps) (simp add: decimal_value_snoc digit_value_char)
  qed
qed

lemma store_frame_any: "store_frame rxBuf d = store_frame rxBuf d'"
  by (cases d; cases d') (simp add: store_frame_def Let_def)

lemma readCANData_none:
  "canAt E (canReads s) = None \<Longrightarrow>
     readCANData E s = (lastValidData s, s\<lparr>canReads := canReads s + 1\<rparr>)"
  by (simp add: readCANData_def)

lemma readCANData_short:
  "canAt E (canReads s) = Some rxBuf \<Longrightarrow> length rxBuf < 6 \<Longrightarrow>
     readCANData E s = (lastValidData s,
       s\<lparr>canReads := canReads s + 1, clockReads := clockReads s + 1,
         lastCanMsgTime := millisAt E (clockReads s)\<rparr>)"
  by (simp add: readCANData_def millis_def)

lemma readCANData_frame:
  "canAt E (canReads s) = Some rxBuf \<Longrightarrow> 6 \<le> length rxBuf \<Longrightarrow>
     readCANData E s = (store_frame rxBuf (lastValidData s),
       s\<lparr>canReads := canReads s + 1, clockReads := clockReads s + 1,
         lastCanMsgTime := millisAt E (clockReads s),
         lastValidData := store_frame rxBuf (lastValidData s)\<rparr>)"
  by (simp add: readCANData_def millis_def)

lemma store_frame_external:
  "externalTemp (store_frame rxBuf d) =
     (let w = be16 (rxBuf ! 4) (rxBuf ! 5) in
      if w = 0xFFFF then ''Disabled'' else if w = 0x8001 then ''Open Circuit''
      else if w = 0x8002 then ''Short Circuit'' else String_u16 w)"
  "externalSensorValid (store_frame rxBuf d) =
     (let w = be16 (rxBuf ! 4) (rxBuf ! 5) in w \<noteq> 0xFFFF \<and> w \<noteq> 0x8001 \<and> w \<noteq> 0x8002)"
  "fuelLevel (store_frame rxBuf d) = String_u16 (be16 (rxBuf ! 0) (rxBuf ! 1))"
  "internalTemp (store_frame rxBuf d) = String_u16 (be16 (rxBuf ! 2) (rxBuf ! 3))"
  by (simp_all add: store_frame_def Let_def)

lemma be16_examples: "be16 0x80 0x01 = 0x8001" "be16 0x01 0x2C = 300" "be16 0xFF 0xFF = 0xFFFF" "be16 0x80 0x02 = 0x8002"
  by (simp_all add: be16_def)

lemma String_300: "String_u16 300 = ''300''"
  by (simp add: String_u16_def decimal.simps digit_char_def)

text \<open>
  C5. When a frame of six bytes or more is pending, \<open>readCANData\<close> returns (and caches)
  a record whose external temperature follows the big-endian word \<open>w\<close> of bytes 4 and
  5: \<open>0xFFFF\<close> gives \<open>Disabled\<close>, \<open>0x8001\<close> gives \<open>Open Circuit\<close>, \<open>0x8002\<close> gives
  \<open>Short Circuit\<close>, each with the sensor marked invalid; any other word gives its
  decimal digits, from which the value reads back, with the sensor marked valid.
\<close>

theorem external_temperature_decode:
  assumes "canAt E (canReads s) = Some rxBuf" and "6 \<le> length rxBuf"
  shows "let w = be16 (rxBuf ! 4) (rxBuf ! 5); d = fst (readCANData E s) in
     uint w = 256 * uint (rxBuf ! 4) + uint (rxBuf ! 5) \<and>
     lastValidData (snd (readCANData E s)) = d \<and>
     (w = 0xFFFF \<longrightarrow> externalTemp d = ''Disabled'' \<and> \<not> externalSensorValid d) \<and>
     (w = 0x8001 \<longrightarrow> externalTemp d = ''Open Circuit'' \<and> \<not> externalSensorValid d) \<and>
     (w = 0x8002 \<longrightarrow> externalTemp d = ''Short Circuit'' \<and> \<not> externalSensorValid d) \<and>
     (w \<noteq> 0xFFFF \<and> w \<noteq> 0x8001 \<and> w \<noteq> 0x8002 \<longrightarrow>
        externalTemp d = String_u16 w \<and> decimal_value (externalTemp d) = unat w \<and> externalSensorValid d)"
  using assms
  by (simp add: Let_def readCANData_frame store_frame_external uint_be16 String_u16_def decimal_value_decimal)

theorem external_temperature_decode_witness:
  "externalTemp (fst (readCANData (silent\<lparr>canAt := \<lambda>k. Some [0, 1, 0, 2, 0x80, 0x01]\<rparr>) power_on)) = ''Open Circuit'' \<and>
   externalTemp (fst (readCANData (silent\<lparr>canAt := \<lambda>k. Some [0, 1, 0, 2, 0x01, 0x2C]\<rparr>) power_on)) = ''300'' \<and>
   externalSensorValid (fst (readCANData (silent\<lparr>canAt := \<lambda>k. Some [0, 1, 0, 2, 0x01, 0x2C]\<rparr>) power_on))"
  using external_temperature_decode [of "silent\<lparr>canAt := \<lambda>k. Some [0, 1, 0, 2, 0x80, 0x01]\<rparr>" power_on "[0, 1, 0, 2, 0x80, 0x01]"]
    external_temperature_decode [of "silent\<lparr>canAt := \<lambda>k. Some [0, 1, 0, 2, 0x01, 0x2C]\<rparr>" power_on "[0, 1, 0, 2, 0x01, 0x2C]"]
  by (simp add: Let_def be16_examples String_u16_def decimal.simps digit_char_def)

text \<open>
  C6. With no frame pending, or one shorter than six bytes, \<open>readCANData\<close> returns the
  cached record and leaves it as it was. With a frame of six bytes or more, the record
  returned is the new cache, its fuel level and internal temperature are the decimal
  digits of the first two words, and the whole record is the same whatever was cached
  before and wherever the same frame is read: nothing of the old record survives.
\<close>

theorem cache_all_or_nothing:
  "(canAt E (canReads s) = None \<longrightarrow>
      fst (readCANData E s) = lastValidData s \<and> lastValidData (snd (readCANData E s)) = lastValidData s) \<and>
   (canAt E (canReads s) = Some rxBuf \<and> length rxBuf < 6 \<longrightarrow>
      fst (readCANData E s) = lastValidData s \<and> lastValidData (snd (readCANData E s)) = lastValidData s) \<and>
   (canAt E (canReads s) = Some rxBuf \<and> 6 \<le> length rxBuf \<longrightarrow>
      fst (readCANData E s) = lastValidData (snd (readCANData E s)) \<and>
      fuelLevel (lastValidData (snd (readCANData E s))) = String_u16 (be16 (rxBuf ! 0) (rxBuf ! 1)) \<and>
      internalTemp (lastValidData (snd (readCANData E s))) = String_u16 (be16 (rxBuf ! 2) (rxBuf ! 3)) \<and>
      (\<forall>E' s'. canAt E' (canReads s') = Some rxBuf \<longrightarrow>
         lastValidData (snd (readCANData E' s')) = lastValidData (snd (readCANData E s))))"
  by (auto simp: readCANData_none readCANData_short readCANData_frame store_frame_external
        intro: store_frame_any)

theorem cache_all_or_nothing_witness:
  "lastValidData (snd (readCANData silent power_on)) = noData \<and>
   lastValidData (snd (readCANData (silent\<lparr>canAt := \<lambda>k. Some [1, 2, 3]\<rparr>) power_on)) = noData \<and>
   fuelLevel (lastValidData (snd (readCANData (silent\<lparr>canAt := \<lambda>k. Some [0x01, 0x2C, 0x01, 0x2C, 0x80, 0x01]\<rparr>) power_on))) = ''300''"
proof -
  have none: "canAt silent (canReads power_on) = None"
    by (simp add: silent_def)
  have short: "canAt (silent\<lparr>canAt := \<lambda>k. Some [1, 2, 3]\<rparr>) (canReads power_on) = Some [1, 2, 3] \<and> length [1, 2, 3 :: byte] < 6"
    by simp
  have full: "canAt (silent\<lparr>canAt := \<lambda>k. Some [0x01, 0x2C, 0x01, 0x2C, 0x80, 0x01]\<rparr>) (canReads power_on)
        = Some [0x01, 0x2C, 0x01, 0x2C, 0x80, 0x01] \<and> 6 \<le> length [0x01, 0x2C, 0x01, 0x2C, 0x80, 0x01 :: byte]"
    by simp
  have start: "lastValidData power_on = noData"
    by (simp add: power_on_def)
  from cache_all_or_nothing [of silent power_on "[]", THEN conjunct1, THEN mp, OF none]
  have 1: "lastValidData (snd (readCANData silent power_on)) = noData"
    by (simp only: start)
  from cache_all_or_nothing [of "silent\<lparr>canAt := \<lambda>k. Some [1, 2, 3]\<rparr>" power_on "[1, 2, 3]",
      THEN conjunct2, THEN conjunct1, THEN mp, OF short]
  have 2: "lastValidData (snd (readCANData (silent\<lparr>canAt := \<lambda>k. Some [1, 2, 3]\<rparr>) power_on)) = noData"
    by (simp only: start)
  from cache_all_or_nothing [of "silent\<lparr>canAt := \<lambda>k. Some [0x01, 0x2C, 0x01, 0x2C, 0x80, 0x01]\<rparr>" power_on
      "[0x01, 0x2C, 0x01, 0x2C, 0x80, 0x01]", THEN conjunct2, THEN conjunct2, THEN mp, OF full,
      THEN conjunct2, THEN conjunct1]
  have 3: "fuelLevel (lastValidData (snd (readCANData (silent\<lparr>canAt := \<lambda>k. Some [0x01, 0x2C, 0x01, 0x2C, 0x80, 0x01]\<rparr>) power_on))) = ''300''"
    by (simp add: be16_examples String_300)
  from 1 2 3 show ?thesis by (simp only: simp_thms)
qed

section \<open>What every step of a run keeps\<close>

lemma actuator_simps [simp]:
  "actuator (s\<lparr>trace := tr\<rparr>) = actuator s"
  "actuator (s\<lparr>pitchReads := n\<rparr>) = actuator s"
  "actuator (s\<lparr>canReads := n\<rparr>) = actuator s"
  "actuator (s\<lparr>clockReads := n\<rparr>) = actuator s"
  "actuator (s\<lparr>windows := n\<rparr>) = actuator s"
  "actuator (s\<lparr>commandLooks := n\<rparr>) = actuator s"
  "actuator (s\<lparr>lastCanMsgTime := t\<rparr>) = actuator s"
  "actuator (s\<lparr>startTime := t\<rparr>) = actuator s"
  "actuator (s\<lparr>testComplete := b\<rparr>) = actuator s"
  "actuator (s\<lparr>headersWritten := b\<rparr>) = actuator s"
  "actuator (s\<lparr>lastValidData := d\<rparr>) = actuator s"
  by (simp_all add: actuator_def)

lemma actuator_commands [simp]:
  "actuator (moveMotorForward s) = Some Forward"
  "actuator (moveMotorBackward s) = Some Backward"
  "actuator (stopMotor s) = Some Stop"
  by (simp_all add: actuator_def moveMotorForward_def moveMotorBackward_def stopMotor_def emit_def)

lemma holds_simps [simp]:
  "holds P (s\<lparr>pitchReads := n\<rparr>) = holds P s"
  "holds P (s\<lparr>canReads := n\<rparr>) = holds P s"
  "holds P (s\<lparr>clockReads := n\<rparr>) = holds P s"
  "holds P (s\<lparr>windows := n\<rparr>) = holds P s"
  "holds P (s\<lparr>commandLooks := n\<rparr>) = holds P s"
  "holds P (s\<lparr>lastCanMsgTime := t\<rparr>) = holds P s"
  "holds P (s\<lparr>startTime := t\<rparr>) = holds P s"
  "holds P (s\<lparr>testComplete := b\<rparr>) = holds P s"
  "holds P (s\<lparr>headersWritten := b\<rparr>) = holds P s"
  by (simp_all add: holds_def)

lemma holds_emit: "holds P (emit e s) = P (trace s @ [e]) (lastValidData s) (actuator s)"
  by (simp add: holds_def emit_def)

lemma steady_weaken: "steady E P Q \<Longrightarrow> holds P s \<Longrightarrow> holds Q s"
  by (simp add: steady_def holds_def)

lemma steady_emit: "steady E P Q \<Longrightarrow> quiet e \<Longrightarrow> holds P s \<Longrightarrow> holds P (emit e s)"
  by (simp add: steady_def holds_emit) (simp add: holds_def)

lemma steady_emit_moving: "steady E P Q \<Longrightarrow> quiet e \<Longrightarrow> holds Q s \<Longrightarrow> holds Q (emit e s)"
  by (simp add: steady_def holds_emit) (simp add: holds_def)

lemma steady_debug: "steady E P Q \<Longrightarrow> holds P s \<Longrightarrow> holds P (debug l s)"
  by (simp add: debug_def steady_emit)

lemma steady_delay: "steady E P Q \<Longrightarrow> holds P s \<Longrightarrow> holds P (delay ms s)"
  by (simp add: delay_def steady_emit)

lemma steady_delay_moving: "steady E P Q \<Longrightarrow> holds Q s \<Longrightarrow> holds Q (delay ms s)"
  by (simp add: delay_def steady_emit_moving)

lemma steady_millis: "holds P (snd (millis E s)) = holds P s"
  by (simp add: millis_def)

lemma steady_poll: "steady E P Q \<Longrightarrow> holds P s \<Longrightarrow> holds P (snd (pollPitch E s))"
  by (simp add: pollPitch_def steady_emit)

lemma command_views [simp]:
  "trace (moveMotorForward s) = trace s @ [Motor Forward]"
  "trace (moveMotorBackward s) = trace s @ [Motor Backward]"
  "trace (stopMotor s) = trace s @ [Motor Stop]"
  "lastValidData (moveMotorForward s) = lastValidData s"
  "lastValidData (moveMotorBackward s) = lastValidData s"
  "lastValidData (stopMotor s) = lastValidData s"
  by (simp_all add: moveMotorForward_def moveMotorBackward_def stopMotor_def emit_def)

lemma steady_forward:
  assumes "steady E P Q" and "holds P s"
  shows "holds Q (moveMotorForward s)"
proof -
  from assms(1) have "\<And>tr d a. P tr d a \<Longrightarrow> Q (tr @ [Motor Forward]) d (Some Forward)"
    unfolding steady_def by blast
  from this [OF assms(2) [unfolded holds_def]] show ?thesis
    by (simp add: holds_def)
qed

lemma steady_backward:
  assumes "steady E P Q" and "holds P s"
  shows "holds Q (moveMotorBackward s)"
proof -
  from assms(1) have "\<And>tr d a. P tr d a \<Longrightarrow> Q (tr @ [Motor Backward]) d (Some Backward)"
    unfolding steady_def by blast
  from this [OF assms(2) [unfolded holds_def]] show ?thesis
    by (simp add: holds_def)
qed

lemma steady_stop:
  assumes "steady E P Q" and "holds Q s"
  shows "holds P (stopMotor s)"
proof -
  from assms(1) have "\<And>tr d a. Q tr d a \<Longrightarrow> P (tr @ [Motor Stop]) d (Some Stop)"
    unfolding steady_def by blast
  from this [OF assms(2) [unfolded holds_def]] show ?thesis
    by (simp add: holds_def)
qed

lemma steady_stream: "steady E P Q \<Longrightarrow> holds P s \<Longrightarrow> holds P (streamCSVData E ph dir s)"
  by (simp add: steady_def)

lemma steady_stream_moving: "steady E P Q \<Longrightarrow> holds Q s \<Longrightarrow> holds Q (streamCSVData E ph dir s)"
  by (simp add: steady_def)

lemma steady_funpow:
  "steady E P Q \<Longrightarrow> holds P s \<Longrightarrow> holds P ((streamCSVData E ph dir ^^ n) s)"
  by (induction n) (simp_all add: steady_stream)

lemma steady_funpow_moving:
  "steady E P Q \<Longrightarrow> holds Q s \<Longrightarrow> holds Q ((streamCSVData E ph dir ^^ n) s)"
  by (induction n) (simp_all add: steady_stream_moving)

lemma steady_window: "steady E P Q \<Longrightarrow> holds P s \<Longrightarrow> holds P (stream_window E ph dir s)"
  by (simp add: stream_window_def steady_funpow)

lemma steady_window_moving: "steady E P Q \<Longrightarrow> holds Q s \<Longrightarrow> holds Q (stream_window E ph dir s)"
  by (simp add: stream_window_def steady_funpow_moving)

lemma steady_acquire:
  "steady E P Q \<Longrightarrow> holds P s \<Longrightarrow> holds P (snd (acquire n E pitch s))"
proof (induction n arbitrary: pitch s)
  case 0
  then show ?case by simp
next
  case (Suc n)
  then show ?case
    by (simp add: Let_def split_beta steady_poll steady_delay)
qed

lemma steady_drive: "steady E P Q \<Longrightarrow> holds P s \<Longrightarrow> holds Q (drive r pitch s)"
  by (cases r) (simp_all add: steady_forward steady_backward steady_debug steady_weaken)

lemma steady_pulse: "steady E P Q \<Longrightarrow> holds Q s \<Longrightarrow> holds Q (pulse E r pitch s)"
  by (simp add: pulse_def steady_delay_moving steady_window_moving)

lemma steady_settle: "steady E P Q \<Longrightarrow> holds P s \<Longrightarrow> holds P (settle E r s)"
  by (simp add: settle_def steady_delay steady_window)

lemma steady_adjust_loop:
  "steady E P Q \<Longrightarrow> holds P s \<Longrightarrow> holds P (snd (snd (adjust_loop fuel E r pitch s)))"
proof (induction fuel arbitrary: pitch s)
  case 0
  then show ?case by simp
next
  case (Suc n)
  let ?s4 = "settle E r (stopMotor (pulse E r pitch (drive r pitch s)))"
  from Suc.prems have "holds P ?s4"
    by (simp add: steady_settle steady_stop steady_pulse steady_drive)
  with Suc.prems have "holds P (snd (acquire maxTimeout E NO_PITCH ?s4))"
    by (simp add: steady_acquire)
  with Suc show ?case
    by (simp add: Let_def split_beta steady_debug)
qed

lemma steady_final_samples:
  "steady E P Q \<Longrightarrow> holds P s \<Longrightarrow> holds P (final_samples n E t s)"
proof (induction n arbitrary: t s)
  case 0
  then show ?case by simp
next
  case (Suc n)
  then show ?case
    by (simp add: Let_def split_beta steady_delay steady_stream steady_millis)
qed

lemma steady_finish: "steady E P Q \<Longrightarrow> holds P s \<Longrightarrow> holds P (finish E r s)"
  by (simp add: finish_def Let_def split_beta steady_debug steady_final_samples steady_millis
        steady_stop steady_weaken)

lemma steady_adjust:
  "steady E P Q \<Longrightarrow> holds P s \<Longrightarrow> holds P (snd (snd (adjust fuel E r s)))"
proof -
  assume st: "steady E P Q" and s: "holds P s"
  let ?a = "acquire maxTimeout E NO_PITCH s"
  from st s have a: "holds P (snd ?a)" by (rule steady_acquire)
  let ?l = "adjust_loop fuel E r (fst ?a) (debug (InitialPitch (fst ?a)) (snd ?a))"
  from st a have l: "holds P (snd (snd ?l))"
    by (simp add: steady_adjust_loop steady_debug)
  show ?thesis
    using st a l
    by (simp add: adjust_def Let_def split_beta steady_debug steady_finish split: option.splits)
qed


lemma steady_warn: "steady E P Q \<Longrightarrow> holds P s \<Longrightarrow> holds P (warn_if_stale E s)"
  by (simp add: warn_if_stale_def Let_def split_beta steady_millis steady_debug)

lemma steady_tilt_and_hold:
  assumes "steady E P Q" and "holds P s"
  shows "holds P (snd (tilt_and_hold fuel E r announce hold label s))"
proof -
  let ?a = "adjust fuel E r (debug (Note announce) s)"
  from assms have a: "holds P (snd (snd ?a))"
    by (simp add: steady_adjust steady_debug)
  with assms(1) have "holds P (stream_window E label ''None''
      (debug (Note hold) (stopMotor (warn_if_stale E (snd (snd ?a))))))"
    by (simp add: steady_window steady_debug steady_stop steady_warn steady_weaken)
  with a show ?thesis
    by (simp add: tilt_and_hold_def split_beta split: option.splits)
qed

lemma steady_return_and_finish:
  assumes "steady E P Q" and "holds P s"
  shows "holds P (snd (return_and_finish fuel E s))"
proof -
  let ?a = "adjust fuel E ReturnToZero (debug (Note ''# Returning to zero pitch position'') s)"
  from assms have a: "holds P (snd (snd ?a))"
    by (simp add: steady_adjust steady_debug)
  with assms(1) show ?thesis
    by (simp add: return_and_finish_def returnToZeroPitch_def Let_def split_beta
          steady_warn steady_debug split: option.splits)
qed

lemma steady_setup:
  assumes "steady E P Q" and "holds Q s"
  shows "holds P (snd (setup_sketch fuel E s))"
proof -
  let ?s3 = "debug (Note ''# Adjusting actuator to achieve 0-degree pitch...'')
               (stopMotor (s\<lparr>headersWritten := False\<rparr>))"
  from assms have "holds P ?s3"
    by (simp add: steady_debug steady_stop)
  with assms(1) have a: "holds P (snd (snd (adjust fuel E AdjustToZero ?s3)))"
    by (rule steady_adjust)
  with assms(1) show ?thesis
    by (simp add: setup_sketch_def adjustToZeroPitch_def Let_def split_beta steady_millis
          steady_debug split: option.splits)
qed

lemma steady_andThen:
  assumes "holds P (snd r)" and "\<And>s. holds P s \<Longrightarrow> holds P (snd (f s))"
  shows "holds P (snd (andThen r f))"
  using assms by (simp add: andThen_def)

lemma steady_loop:
  assumes "steady E P Q" and "holds P s"
  shows "holds P (snd (loop_sketch fuel E s))"
proof (cases "testComplete s")
  case True
  let ?s1 = "s\<lparr>commandLooks := commandLooks s + 1\<rparr>"
  from assms have "holds Q (debug (Note ''# Resetting system...'') ?s1)"
    by (simp add: steady_debug steady_weaken)
  with assms(1) have "holds P (snd (setup_sketch fuel E (debug (Note ''# Resetting system...'') ?s1)))"
    by (rule steady_setup)
  with True assms show ?thesis
    by (simp add: loop_sketch_def Let_def steady_delay split: option.splits)
next
  case False
  let ?s1 = "if \<not> headersWritten s then (emit CsvHeader s)\<lparr>headersWritten := True\<rparr> else s"
  from assms have "holds P ?s1"
    by (simp add: steady_emit)
  with False assms(1) show ?thesis
    by (simp add: loop_sketch_def Let_def steady_andThen steady_tilt_and_hold
          steady_return_and_finish)
qed

lemma steady_sketch:
  assumes "steady E P Q" and "holds Q s"
  shows "holds P (snd (sketch fuel E n s))"
proof (induction n)
  case 0
  from assms show ?case by (simp add: steady_setup)
next
  case (Suc n)
  with assms(1) show ?case
    by (simp add: steady_andThen steady_loop)
qed

section \<open>The telemetry streamer\<close>

lemma cmds_append [simp]: "cmds (xs @ ys) = cmds xs @ cmds ys"
  by (induction xs rule: cmds.induct) simp_all

lemma rows_append [simp]: "rows (xs @ ys) = rows xs @ rows ys"
  by (induction xs rule: rows.induct) simp_all

lemma columns_append [simp]: "columns (xs @ ys) = columns xs @ columns ys"
  by (induction xs rule: columns.induct) simp_all

lemma stream_guard: "(pitch \<noteq> NO_PITCH \<and> - 25 \<le> pitch \<and> pitch \<le> 25) = (\<not> invalid_pitch pitch)"
  by (auto simp: invalid_pitch_def)

lemma can_cache:
  "fst (readCANData E s) =
     (case canAt E (canReads s) of
        None \<Rightarrow> lastValidData s
      | Some rxBuf \<Rightarrow> if 6 \<le> length rxBuf then store_frame rxBuf (lastValidData s) else lastValidData s)"
  by (simp add: readCANData_def millis_def Let_def split: option.splits)

lemma can_views [simp]:
  "lastValidData (snd (readCANData E s)) = fst (readCANData E s)"
  "trace (snd (readCANData E s)) = trace s"
  "pitchReads (snd (readCANData E s)) = pitchReads s"
  "canReads (snd (readCANData E s)) = canReads s + 1"
  "windows (snd (readCANData E s)) = windows s"
  "startTime (snd (readCANData E s)) = startTime s"
  "actuator (snd (readCANData E s)) = actuator s"
  by (simp_all add: readCANData_def millis_def Let_def split: option.splits)


lemmas stream_unfold = streamCSVData_def pollPitch_def millis_def emit_def
  debug_def Let_def split_beta stream_guard

lemma stream_counters [simp]:
  "pitchReads (streamCSVData E ph dir s) = pitchReads s + 1"
  "canReads (streamCSVData E ph dir s) = canReads s + 1"
  "windows (streamCSVData E ph dir s) = windows s"
  "startTime (streamCSVData E ph dir s) = startTime s"
  "actuator (streamCSVData E ph dir s) = actuator s"
  by (simp_all add: stream_unfold)

lemma stream_cmds [simp]: "cmds (trace (streamCSVData E ph dir s)) = cmds (trace s)"
  by (simp add: stream_unfold)

lemma stream_cache:
  "lastValidData (streamCSVData E ph dir s) =
     (case canAt E (canReads s) of
        None \<Rightarrow> lastValidData s
      | Some rxBuf \<Rightarrow> if 6 \<le> length rxBuf then store_frame rxBuf (lastValidData s) else lastValidData s)"
  by (simp add: stream_unfold can_cache split: option.splits)

lemma stream_rejects:
  "invalid_pitch (pitchAt E (pitchReads s)) \<Longrightarrow>
     trace (streamCSVData E ph dir s) = trace s @ [PitchRead]"
  by (simp add: stream_unfold)

lemma stream_rows:
  "rows (trace (streamCSVData E ph dir s)) =
     rows (trace s) @ (if invalid_pitch (pitchAt E (pitchReads s)) then []
                       else [(pitchAt E (pitchReads s), ph, dir)])"
  by (simp add: stream_unfold)

lemma stream_columns:
  "columns (trace (streamCSVData E ph dir s)) =
     columns (trace s) @ (if invalid_pitch (pitchAt E (pitchReads s)) then []
        else [(fuelLevel (lastValidData (streamCSVData E ph dir s)),
               internalTemp (lastValidData (streamCSVData E ph dir s)),
               externalTemp (lastValidData (streamCSVData E ph dir s)))])"
  by (simp add: stream_unfold)

lemma emits_rows:
  "rows (trace (emits E calls s)) =
     rows (trace s) @
     map (\<lambda>(k, phase, direction). (pitchAt E k, phase, direction))
       (filter (\<lambda>(k, c). \<not> invalid_pitch (pitchAt E k))
          (zip [pitchReads s ..< pitchReads s + length calls] calls))"
proof (induction calls arbitrary: s)
  case Nil
  show ?case by simp
next
  case (Cons c calls)
  obtain phase direction where c: "c = (phase, direction)" by (cases c)
  have upt: "[pitchReads s ..< Suc (pitchReads s + length calls)]
      = pitchReads s # [Suc (pitchReads s) ..< Suc (pitchReads s + length calls)]"
    by (rule upt_conv_Cons) simp
  show ?case
    by (simp add: c Cons.IH stream_rows upt del: upt_Suc)
qed

text \<open>
  C8. A call of \<open>streamCSVData\<close> whose reading is the no-angle value or lies outside
  -25 to 25 degrees adds the call of \<open>readPitch\<close> to the events and nothing else: no row,
  no debug line. Over any sequence of calls, the rows written are exactly those of the
  calls whose reading is valid, in order, each with that reading and the call's labels.
\<close>

theorem emit_only_valid_samples:
  "(pitchAt E (pitchReads s) = NO_PITCH \<or> pitchAt E (pitchReads s) < - 25 \<or> 25 < pitchAt E (pitchReads s)
      \<longrightarrow> trace (streamCSVData E phase direction s) = trace s @ [PitchRead]) \<and>
   rows (trace (emits E calls s)) =
     rows (trace s) @
     map (\<lambda>(k, phase, direction). (pitchAt E k, phase, direction))
       (filter (\<lambda>(k, c). \<not> invalid_pitch (pitchAt E k))
          (zip [pitchReads s ..< pitchReads s + length calls] calls))"
  using stream_rejects [of E s phase direction]
  by (simp add: emits_rows) (simp add: invalid_pitch_def)

theorem emit_only_valid_samples_witness:
  "trace (streamCSVData silent ''Stationary1'' ''None'' power_on) = [PitchRead] \<and>
   rows (trace (emits (silent\<lparr>pitchAt := \<lambda>k. if even k then 1 else NO_PITCH\<rparr>)
          [(''Stationary1'', ''None''), (''Stationary2'', ''None''), (''Stationary3'', ''None'')] power_on))
     = [(1, ''Stationary1'', ''None''), (1, ''Stationary3'', ''None'')]"
  using emit_only_valid_samples [of silent power_on "''Stationary1''" "''None''" "[]"]
    emit_only_valid_samples [of "silent\<lparr>pitchAt := \<lambda>k. if even k then 1 else NO_PITCH\<rparr>" power_on
      "''Stationary1''" "''None''"
      "[(''Stationary1'', ''None''), (''Stationary2'', ''None''), (''Stationary3'', ''None'')]"]
  by (simp add: silent_def power_on_def invalid_pitch_def NO_PITCH_def upt_conv_Cons)

section \<open>The pitch controller\<close>

lemma off_target_band: "off_target r pitch \<longleftrightarrow> 0.1 < \<bar>pitch - target_angle r\<bar>"
  by (cases r) (auto simp: abs_macro_def abs_if)

text \<open>
  C4, as the sketch has it. Every routine, the two that steer to zero included, uses
  the tolerance 0.1: its loop goes on exactly while the reading is more than 0.1 degrees
  away from the routine's target.
\<close>

theorem tolerance_is_a_tenth:
  "off_target r pitch = (0.1 < \<bar>pitch - target_angle r\<bar>)"
  by (rule off_target_band)

theorem tolerance_is_a_tenth_witness:
  "off_target AdjustToZero 0.15 \<and> \<not> off_target AdjustToZero 0.1 \<and> off_target AdjustToPosFive 5.15"
  using tolerance_is_a_tenth [of AdjustToZero "0.15"] tolerance_is_a_tenth [of AdjustToZero "0.1"]
    tolerance_is_a_tenth [of AdjustToPosFive "5.15"]
  by simp

text \<open>
  C4 as stated fails: the zeroing routine accepts no reading outside the 0.1 degree band
  around zero, so its band is not wider than that of the other targets.
\<close>

theorem zeroing_band_counterexample:
  "\<not> (\<exists>pitch. \<not> off_target AdjustToZero pitch \<and> 0.1 < \<bar>pitch\<bar>)"
  by (auto simp: abs_macro_def)

section \<open>The sequencer\<close>

lemma cmds_quiet: "quiet e \<Longrightarrow> cmds [e] = []"
  by (cases e) simp_all

lemma columns_quiet: "quiet e \<Longrightarrow> columns [e] = []"
  by (cases e) simp_all

lemma steady_placeholder:
  assumes "\<forall>k. no_full_frame E k"
  shows "steady E
     (\<lambda>tr d a. d = noData \<and> set (columns tr) \<subseteq> {(''No Data'', ''No Data'', ''No Data'')})
     (\<lambda>tr d a. d = noData \<and> set (columns tr) \<subseteq> {(''No Data'', ''No Data'', ''No Data'')})"
proof -
  have cache: "lastValidData (streamCSVData E ph dir s) = noData" if "lastValidData s = noData" for s ph dir
    using assms [rule_format, of "canReads s"] that
    by (simp add: stream_cache no_full_frame_def split: option.splits)
  show ?thesis
    unfolding steady_def holds_def
    by (simp add: columns_quiet stream_columns cache) (simp add: noData_def)
qed

section \<open>Runs of the pitch controller\<close>

lemma cmds_polling [simp]: "cmds (concat (replicate n [PitchRead, Delay ms])) = []"
  by (induction n) simp_all

lemma acquire_fails:
  assumes "\<forall>k. invalid_pitch (pitchAt E k)" and "invalid_pitch pitch"
  shows "acquire n E pitch s =
     (if n = 0 then pitch else pitchAt E (pitchReads s + n - 1),
      s\<lparr>pitchReads := pitchReads s + n,
        trace := trace s @ concat (replicate n [PitchRead, Delay 10])\<rparr>)"
  using assms(2)
proof (induction n arbitrary: pitch s)
  case 0
  then show ?case by simp
next
  case (Suc n)
  from assms(1) have bad: "invalid_pitch (pitchAt E (pitchReads s))" by simp
  show ?case
    using Suc.prems bad
    by (simp add: Suc.IH [OF bad] pollPitch_def delay_def emit_def)
qed

text \<open>
  C2. When no reading is ever valid, each of the six routines calls \<open>readPitch\<close> exactly
  1000 times, each call followed by \<open>delay(10)\<close>, prints the failure line and returns
  by its first exit. Nothing else happens: no command goes to the actuator and its pins
  are as they were, so an actuator that was stopped is left stopped.
\<close>

theorem timeout_without_reading:
  assumes "\<forall>k. invalid_pitch (pitchAt E k)"
  shows "fst (adjust fuel E r s) = Some InitialReadFailed \<and>
     snd (snd (adjust fuel E r s)) =
       s\<lparr>pitchReads := pitchReads s + 1000,
         trace := trace s @ concat (replicate 1000 [PitchRead, Delay 10]) @ [Debug FailedInitialRead]\<rparr> \<and>
     cmds (trace (snd (snd (adjust fuel E r s)))) = cmds (trace s) \<and>
     actuator (snd (snd (adjust fuel E r s))) = actuator s"
proof -
  have no: "invalid_pitch NO_PITCH" by (simp add: invalid_pitch_def)
  show ?thesis
    by (simp add: adjust_def maxTimeout_def acquire_fails [OF assms no] assms [rule_format]
          debug_def emit_def)
qed


theorem timeout_without_reading_witness:
  "fst (adjust 5 silent AdjustToPosFive power_on) = Some InitialReadFailed \<and>
   pitchReads (snd (snd (adjust 5 silent AdjustToPosFive power_on))) = 1000 \<and>
   cmds (trace (snd (snd (adjust 5 silent AdjustToPosFive power_on)))) = [] \<and>
   actuator (snd (snd (adjust 5 silent AdjustToPosFive power_on))) = Some Stop"
proof -
  have never: "\<forall>k. invalid_pitch (pitchAt silent k)"
    by (simp add: silent_def invalid_pitch_def)
  from timeout_without_reading [OF never, of 5 AdjustToPosFive power_on] show ?thesis
    by (simp add: power_on_def actuator_def)
qed

lemma funpow_stream_views [simp]:
  "pitchReads ((streamCSVData E ph dir ^^ n) s) = pitchReads s + n"
  "windows ((streamCSVData E ph dir ^^ n) s) = windows s"
  "cmds (trace ((streamCSVData E ph dir ^^ n) s)) = cmds (trace s)"
  "actuator ((streamCSVData E ph dir ^^ n) s) = actuator s"
  by (induction n) simp_all

lemma window_views [simp]:
  "pitchReads (stream_window E ph dir s) = pitchReads s + firesAt E (windows s)"
  "windows (stream_window E ph dir s) = windows s + 1"
  "cmds (trace (stream_window E ph dir s)) = cmds (trace s)"
  "actuator (stream_window E ph dir s) = actuator s"
  by (simp_all add: stream_window_def)

lemma acquire_succeeds:
  "0 < n \<Longrightarrow> invalid_pitch pitch \<Longrightarrow> \<not> invalid_pitch (pitchAt E (pitchReads s)) \<Longrightarrow>
     acquire n E pitch s = pollPitch E s"
  by (cases n) (simp_all add: pollPitch_def)

lemma adjust_loop_on_target:
  "\<not> off_target r pitch \<Longrightarrow> adjust_loop fuel E r pitch s = (Some Reached, pitch, s)"
  by (cases fuel) simp_all

lemma step_views [simp]:
  "pitchReads (debug l s) = pitchReads s" "windows (debug l s) = windows s"
  "trace (debug l s) = trace s @ [Debug l]" "actuator (debug l s) = actuator s"
  "pitchReads (delay ms s) = pitchReads s" "windows (delay ms s) = windows s"
  "trace (delay ms s) = trace s @ [Delay ms]" "actuator (delay ms s) = actuator s"
  "pitchReads (snd (pollPitch E s)) = pitchReads s + 1" "windows (snd (pollPitch E s)) = windows s"
  "trace (snd (pollPitch E s)) = trace s @ [PitchRead]" "actuator (snd (pollPitch E s)) = actuator s"
  "fst (pollPitch E s) = pitchAt E (pitchReads s)"
  "pitchReads (moveMotorForward s) = pitchReads s" "windows (moveMotorForward s) = windows s"
  "pitchReads (moveMotorBackward s) = pitchReads s" "windows (moveMotorBackward s) = windows s"
  "pitchReads (stopMotor s) = pitchReads s" "windows (stopMotor s) = windows s"
  by (simp_all add: debug_def delay_def emit_def pollPitch_def moveMotorForward_def
        moveMotorBackward_def stopMotor_def)

text \<open>
  C3. The source returns 8.0 on its first three calls and 10.05 from then on.
  \<open>adjustToPosTenPitch\<close> reads 8.0, switches the actuator backward (up) once, streams
  telemetry through the pulse window and, after \<open>stopMotor\<close>, through the settle window;
  every row streamed is a call of the source. When the two windows fire at least twice
  together (at the 10 ms cadence they fire about 19 and 99 times), the next reading is
  10.05 and the routine ends by its loop condition with that reading, having issued one
  drive command, the stop that ends the pulse and its closing \<open>stopMotor\<close>.
\<close>

theorem one_pulse_to_ten:
  assumes source: "pitchAt E = (\<lambda>k. if k < pitchReads s + 3 then 8 else 10.05)"
    and fires: "2 \<le> firesAt E (windows s) + firesAt E (windows s + 1)"
    and fuel: "0 < fuel"
  shows "fst (adjustToPosTenPitch fuel E s) = Some Reached \<and>
     fst (snd (adjustToPosTenPitch fuel E s)) = 10.05 \<and>
     cmds (trace (snd (snd (adjustToPosTenPitch fuel E s)))) = cmds (trace s) @ [Backward, Stop, Stop] \<and>
     actuator (snd (snd (adjustToPosTenPitch fuel E s))) = Some Stop"
proof -
  have no: "invalid_pitch NO_PITCH" by (simp add: invalid_pitch_def)
  have first: "pitchAt E (pitchReads s) = 8" by (simp add: source)
  then have ok1: "\<not> invalid_pitch (pitchAt E (pitchReads s))"
    by (simp add: invalid_pitch_def NO_PITCH_def)
  have a1: "acquire maxTimeout E NO_PITCH s = (8, snd (pollPitch E s))"
    using acquire_succeeds [OF _ no ok1, of maxTimeout] first
    by (simp add: maxTimeout_def prod_eq_iff)
  define s2 where "s2 = debug (InitialPitch 8) (snd (pollPitch E s))"
  define s6 where "s6 = settle E AdjustToPosTen (stopMotor (pulse E AdjustToPosTen 8
      (moveMotorBackward (debug MovingUp s2))))"
  have reads: "pitchReads s6 = pitchReads s + 1 + firesAt E (windows s) + firesAt E (windows s + 1)"
    by (simp add: s6_def s2_def settle_def pulse_def)
  with fires have later: "pitchAt E (pitchReads s6) = 10.05"
    by (simp add: source)
  then have ok2: "\<not> invalid_pitch (pitchAt E (pitchReads s6))"
    by (simp add: invalid_pitch_def NO_PITCH_def)
  have a2: "acquire maxTimeout E NO_PITCH s6 = (10.05, snd (pollPitch E s6))"
    using acquire_succeeds [OF _ no ok2, of maxTimeout] later
    by (simp add: maxTimeout_def prod_eq_iff)
  have c6: "cmds (trace s6) = cmds (trace s) @ [Backward, Stop]" and m6: "actuator s6 = Some Stop"
    by (simp_all add: s6_def s2_def settle_def pulse_def)
  obtain n where n: "fuel = Suc n" using fuel by (cases fuel) auto
  have loop: "adjust_loop fuel E AdjustToPosTen 8 s2
      = (Some Reached, 10.05, debug (CurrentPitch 10.05) (snd (pollPitch E s6)))"
    using ok2 later
    by (simp add: n s6_def [symmetric] a2 adjust_loop_on_target)
  have ok8: "\<not> invalid_pitch 8"
    by (simp add: invalid_pitch_def NO_PITCH_def)
  have "adjustToPosTenPitch fuel E s = (Some Reached, 10.05,
      finish E AdjustToPosTen (debug (CurrentPitch 10.05) (snd (pollPitch E s6))))"
    by (simp add: adjustToPosTenPitch_def adjust_def a1 ok8 s2_def [symmetric] loop)
  then show ?thesis
    by (simp add: finish_def c6 m6)
qed

theorem one_pulse_to_ten_witness:
  "fst (adjustToPosTenPitch 1
          (silent\<lparr>pitchAt := \<lambda>k. if k < 3 then 8 else 10.05, firesAt := \<lambda>k. if k = 0 then 19 else 99\<rparr>)
          power_on) = Some Reached \<and>
   fst (snd (adjustToPosTenPitch 1
          (silent\<lparr>pitchAt := \<lambda>k. if k < 3 then 8 else 10.05, firesAt := \<lambda>k. if k = 0 then 19 else 99\<rparr>)
          power_on)) = 10.05 \<and>
   cmds (trace (snd (snd (adjustToPosTenPitch 1
          (silent\<lparr>pitchAt := \<lambda>k. if k < 3 then 8 else 10.05, firesAt := \<lambda>k. if k = 0 then 19 else 99\<rparr>)
          power_on)))) = [Backward, Stop, Stop]"
proof -
  let ?E = "silent\<lparr>pitchAt := \<lambda>k. if k < 3 then 8 else 10.05, firesAt := \<lambda>k. if k = 0 then 19 else 99\<rparr>"
  have source: "pitchAt ?E = (\<lambda>k. if k < pitchReads power_on + 3 then 8 else 10.05)"
    by (simp add: power_on_def)
  have fires: "2 \<le> firesAt ?E (windows power_on) + firesAt ?E (windows power_on + 1)"
    by (simp add: power_on_def)
  have fuel: "0 < (1 :: nat)" by simp
  have fresh: "cmds (trace power_on) = []" by (simp add: power_on_def)
  from one_pulse_to_ten [OF source fires fuel] show ?thesis
    by (simp add: fresh)
qed

lemma outside_invalid: "pitch < - 25 \<or> 25 < pitch \<Longrightarrow> invalid_pitch pitch"
  by (auto simp: invalid_pitch_def)

lemma discard_fields [simp]:
  "canAt (discard_outside E) = canAt E"
  "millisAt (discard_outside E) = millisAt E"
  "firesAt (discard_outside E) = firesAt E"
  "serial1Up (discard_outside E) = serial1Up E"
  "invalid_pitch (pitchAt (discard_outside E) k) = invalid_pitch (pitchAt E k)"
  "\<not> invalid_pitch (pitchAt E k) \<Longrightarrow> pitchAt (discard_outside E) k = pitchAt E k"
  by (auto simp: discard_outside_def invalid_pitch_def)

lemma discard_millis [simp]: "millis (discard_outside E) s = millis E s"
  by (simp add: millis_def)

lemma discard_can [simp]: "readCANData (discard_outside E) s = readCANData E s"
  by (simp add: readCANData_def Let_def split_beta split: option.splits)

lemma discard_stream [simp]:
  "streamCSVData (discard_outside E) ph dir s = streamCSVData E ph dir s"
  by (cases "invalid_pitch (pitchAt E (pitchReads s))")
    (simp_all add: streamCSVData_def pollPitch_def Let_def split_beta stream_guard)

lemma discard_funpow [simp]:
  "(streamCSVData (discard_outside E) ph dir ^^ n) s = (streamCSVData E ph dir ^^ n) s"
  by (induction n arbitrary: s) simp_all

lemma discard_window [simp]: "stream_window (discard_outside E) ph dir s = stream_window E ph dir s"
  by (simp add: stream_window_def)

lemma discard_final [simp]: "final_samples n (discard_outside E) t s = final_samples n E t s"
  by (induction n arbitrary: t s) (simp_all add: Let_def split_beta)

lemma discard_finish [simp]: "finish (discard_outside E) r s = finish E r s"
  by (simp add: finish_def Let_def split_beta)

lemma discard_acquire:
  assumes "invalid_pitch p \<and> invalid_pitch p' \<or> p = p'"
  shows "snd (acquire n (discard_outside E) p s) = snd (acquire n E p' s) \<and>
     invalid_pitch (fst (acquire n (discard_outside E) p s)) = invalid_pitch (fst (acquire n E p' s)) \<and>
     (\<not> invalid_pitch (fst (acquire n E p' s)) \<longrightarrow>
        fst (acquire n (discard_outside E) p s) = fst (acquire n E p' s))"
  using assms
proof (induction n arbitrary: p p' s)
  case 0
  then show ?case by auto
next
  case (Suc n)
  show ?case
  proof (cases "invalid_pitch p'")
    case False
    with Suc.prems have "p = p'" by blast
    with False show ?thesis by simp
  next
    case True
    with Suc.prems have p: "invalid_pitch p" by blast
    show ?thesis
    proof (cases "invalid_pitch (pitchAt E (pitchReads s))")
      case False
      with True p show ?thesis
        by (simp add: pollPitch_def)
    next
      case bad: True
      have same: "snd (pollPitch (discard_outside E) s) = snd (pollPitch E s)"
        by (simp add: pollPitch_def)
      have both: "invalid_pitch (pitchAt (discard_outside E) (pitchReads s)) \<and>
          invalid_pitch (pitchAt E (pitchReads s)) \<or>
          pitchAt (discard_outside E) (pitchReads s) = pitchAt E (pitchReads s)"
        using bad by simp
      note ih = Suc.IH [OF both, of "delay 10 (snd (pollPitch E s))"]
      have l: "acquire (Suc n) (discard_outside E) p s =
          acquire n (discard_outside E) (pitchAt (discard_outside E) (pitchReads s))
            (delay 10 (snd (pollPitch E s)))"
        using p bad by (simp add: split_beta same)
      have r: "acquire (Suc n) E p' s =
          acquire n E (pitchAt E (pitchReads s)) (delay 10 (snd (pollPitch E s)))"
        using True bad by (simp add: split_beta)
      from ih show ?thesis
        unfolding l r .
    qed
  qed
qed

lemma discard_adjust_loop:
  "fst (adjust_loop fuel (discard_outside E) r pitch s) = fst (adjust_loop fuel E r pitch s) \<and>
   snd (snd (adjust_loop fuel (discard_outside E) r pitch s)) = snd (snd (adjust_loop fuel E r pitch s))"
proof (induction fuel arbitrary: pitch s)
  case 0
  show ?case by simp
next
  case (Suc n)
  let ?s4 = "settle E r (stopMotor (pulse E r pitch (drive r pitch s)))"
  have s4: "settle (discard_outside E) r (stopMotor (pulse (discard_outside E) r pitch (drive r pitch s))) = ?s4"
    by (simp add: settle_def pulse_def)
  note a = discard_acquire [of NO_PITCH NO_PITCH maxTimeout E ?s4, simplified]
  show ?case
  proof (cases "invalid_pitch (fst (acquire maxTimeout E NO_PITCH ?s4))")
    case True
    with a show ?thesis by (simp add: s4 Let_def split_beta)
  next
    case False
    with a Suc.IH show ?thesis by (simp add: s4 Let_def split_beta)
  qed
qed

lemma discard_adjust:
  "fst (adjust fuel (discard_outside E) r s) = fst (adjust fuel E r s) \<and>
   snd (snd (adjust fuel (discard_outside E) r s)) = snd (snd (adjust fuel E r s))"
proof -
  note a = discard_acquire [of NO_PITCH NO_PITCH maxTimeout E s, simplified]
  show ?thesis
  proof (cases "invalid_pitch (fst (acquire maxTimeout E NO_PITCH s))")
    case True
    with a show ?thesis by (simp add: adjust_def Let_def split_beta)
  next
    case False
    let ?p = "fst (acquire maxTimeout E NO_PITCH s)"
    let ?s1 = "debug (InitialPitch ?p) (snd (acquire maxTimeout E NO_PITCH s))"
    note l = discard_adjust_loop [of fuel E r ?p ?s1]
    from False a l show ?thesis
      by (simp add: adjust_def Let_def split_beta split: option.splits)
  qed
qed

text \<open>
  C1. For every ten-byte frame with sync byte \<open>0x55\<close> and type byte \<open>0x53\<close>, the decode
  is the signed 16-bit little-endian value of bytes 2 and 3, divided by 32768 and
  multiplied by 180; \<open>readPitch\<close> returns it, consuming the frame, when at least one more
  byte is buffered behind the frame. Whatever the reader returned, a reading outside -25
  to 25 degrees fails the controller's test, and both the streamer and every adjusting
  routine behave exactly as if the reader had returned the no-angle value in its place:
  same outcome, same state, same events.
\<close>

theorem decode_and_envelope:
  "(length buffer = 10 \<and> buffer ! 0 = 0x55 \<and> buffer ! 1 = 0x53 \<longrightarrow>
      decode_angle buffer = real_of_int (rawInt16LE (buffer ! 2) (buffer ! 3)) / 32768 * 180 \<and>
      (rest \<noteq> [] \<longrightarrow> readPitch (buffer @ rest) = (decode_angle buffer, rest))) \<and>
   (pitch < - 25 \<or> 25 < pitch \<longrightarrow> invalid_pitch pitch) \<and>
   streamCSVData (discard_outside E) phase direction s = streamCSVData E phase direction s \<and>
   fst (adjust fuel (discard_outside E) r s) = fst (adjust fuel E r s) \<and>
   snd (snd (adjust fuel (discard_outside E) r s)) = snd (snd (adjust fuel E r s))"
  by (simp add: decode_angle_frame readPitch_frame outside_invalid discard_adjust)

theorem decode_and_envelope_witness:
  "decode_angle [0x55, 0x53, 0x00, 0x80, 1, 2, 3, 4, 5, 6] = - 180 \<and>
   readPitch [0x55, 0x53, 0x00, 0x80, 1, 2, 3, 4, 5, 6, 7] = (- 180, [7]) \<and>
   invalid_pitch (- 180) \<and>
   streamCSVData (discard_outside (silent\<lparr>pitchAt := \<lambda>k. - 180\<rparr>)) ''Stationary1'' ''None'' power_on
     = streamCSVData (silent\<lparr>pitchAt := \<lambda>k. - 180\<rparr>) ''Stationary1'' ''None'' power_on"
proof -
  note all = decode_and_envelope [of "[0x55, 0x53, 0x00, 0x80, 1, 2, 3, 4, 5, 6]" "[7]" "- 180"
      "silent\<lparr>pitchAt := \<lambda>k. - 180\<rparr>" "''Stationary1''" "''None''" power_on 1 AdjustToZero]
  have frame: "length [0x55, 0x53, 0x00, 0x80, 1, 2, 3, 4, 5, 6 :: byte] = 10 \<and>
      [0x55, 0x53, 0x00, 0x80, 1, 2, 3, 4, 5, 6 :: byte] ! 0 = 0x55 \<and>
      [0x55, 0x53, 0x00, 0x80, 1, 2, 3, 4, 5, 6 :: byte] ! 1 = 0x53"
    by simp
  have raw: "rawInt16LE 0x00 0x80 = - 32768"
    by (simp add: rawInt16LE_def)
  from all [THEN conjunct1, THEN mp, OF frame, THEN conjunct1]
  have 1: "decode_angle [0x55, 0x53, 0x00, 0x80, 1, 2, 3, 4, 5, 6] = - 180"
    by (simp add: raw)
  have "[7 :: byte] \<noteq> []" by simp
  with all [THEN conjunct1, THEN mp, OF frame, THEN conjunct2]
  have "readPitch ([0x55, 0x53, 0x00, 0x80, 1, 2, 3, 4, 5, 6] @ [7])
      = (decode_angle [0x55, 0x53, 0x00, 0x80, 1, 2, 3, 4, 5, 6], [7])"
    by (rule mp)
  with 1 have 2: "readPitch [0x55, 0x53, 0x00, 0x80, 1, 2, 3, 4, 5, 6, 7] = (- 180, [7])"
    by simp
  have "(- 180 :: real) < - 25 \<or> 25 < (- 180 :: real)" by simp
  with all [THEN conjunct2, THEN conjunct1] have 3: "invalid_pitch (- 180)"
    by (rule mp)
  from 1 2 3 all [THEN conjunct2, THEN conjunct2, THEN conjunct1] show ?thesis
    by (simp only: simp_thms)
qed

section \<open>Runs of the sequencer\<close>

lemma stop_between_snoc:
  "stop_between (cs @ [c]) = (stop_between cs \<and> (cs = [] \<or> last cs = Stop \<or> c = Stop))"
  by (induction cs rule: stop_between.induct) auto

lemma steady_motor:
  "steady E
     (\<lambda>tr d a. stop_between (cmds tr) \<and> cmds tr \<noteq> [] \<and> last (cmds tr) = Stop \<and> a = Some Stop)
     (\<lambda>tr d a. stop_between (cmds tr) \<and> (cmds tr = [] \<or> a = Some (last (cmds tr))))"
  unfolding steady_def holds_def
  by (simp add: cmds_quiet stop_between_snoc)

lemma stop_between_examples:
  "stop_between [Stop, Backward, Stop, Stop, Forward, Stop]"
  "\<not> stop_between [Stop, Forward, Backward, Stop]"
  by simp_all

lemma stop_between_adjacent:
  "stop_between cs \<Longrightarrow> Suc i < length cs \<Longrightarrow> cs ! i = Stop \<or> cs ! Suc i = Stop"
proof (induction cs arbitrary: i rule: stop_between.induct)
  case (1 c d cs)
  then show ?case by (cases i) auto
qed simp_all

lemma stop_between_any:
  assumes "stop_between cs" and "i < j" and "j < length cs" and "cs ! i \<noteq> Stop" and "cs ! j \<noteq> Stop"
  shows "\<exists>k. i < k \<and> k < j \<and> cs ! k = Stop"
proof -
  from assms(2,3) have "Suc i < length cs" by simp
  with assms(1,4) have stop: "cs ! Suc i = Stop"
    using stop_between_adjacent by blast
  with assms(5) have "Suc i \<noteq> j" by auto
  with assms(2) have "Suc i < j" by simp
  with stop show ?thesis by blast
qed

lemma actuator_carry_out: "actuator (carry_out c s) = Some c"
  by (cases c) simp_all

lemma actuator_replay:
  "actuator (replay es s) = (if cmds es = [] then actuator s else Some (last (cmds es)))"
proof (induction es s rule: replay.induct)
  case (2 c es s)
  then show ?case by (simp add: actuator_carry_out)
qed simp_all

text \<open>
  Every step the sketch is made of keeps the pins equal to what carrying out the
  commands among the events so far gives.
\<close>

lemma steady_replay:
  "steady E (\<lambda>tr d a. a = actuator (replay tr s0)) (\<lambda>tr d a. a = actuator (replay tr s0))"
  unfolding steady_def holds_def
  by (simp add: actuator_replay cmds_quiet)

lemma stop_between_prefix: "stop_between (xs @ ys) \<Longrightarrow> stop_between xs"
proof (induction xs rule: stop_between.induct)
  case (1 c d cs)
  then show ?case by simp
qed simp_all

lemma stop_between_take: "stop_between (cmds tr) \<Longrightarrow> stop_between (cmds (take k tr))"
proof -
  assume "stop_between (cmds tr)"
  then have "stop_between (cmds (take k tr) @ cmds (drop k tr))"
    by (simp flip: cmds_append)
  then show ?thesis by (rule stop_between_prefix)
qed

lemma stream_extends: "\<exists>ev. trace (streamCSVData E ph dir s) = trace s @ ev"
  by (simp add: stream_unfold)

lemma steady_extends: "steady E (\<lambda>tr d a. \<exists>ev. tr = t0 @ ev) (\<lambda>tr d a. \<exists>ev. tr = t0 @ ev)"
proof -
  have "\<exists>ev. trace (streamCSVData E ph dir s) = t0 @ ev" if "trace s = t0 @ ev0" for s ph dir ev0
    using stream_extends [of E ph dir s] that by auto
  then show ?thesis
    unfolding steady_def holds_def by auto
qed

lemma setup_begins:
  assumes "trace s = []"
  shows "\<exists>ev. trace (snd (setup_sketch fuel E s)) = Motor Stop # ev"
proof -
  let ?s3 = "debug (Note ''# Adjusting actuator to achieve 0-degree pitch...'')
               (stopMotor (s\<lparr>headersWritten := False\<rparr>))"
  define t0 where "t0 = [Motor Stop]"
  let ?P = "\<lambda>tr (d :: CANData) (a :: cmd option). \<exists>ev. tr = t0 @ ev"
  from assms have "holds ?P ?s3"
    by (simp add: holds_def debug_def stopMotor_def emit_def t0_def)
  then have "holds ?P (snd (snd (adjust fuel E AdjustToZero ?s3)))"
    by (rule steady_adjust [OF steady_extends])
  then have "holds ?P (snd (setup_sketch fuel E s))"
    by (simp add: setup_sketch_def adjustToZeroPitch_def Let_def split_beta steady_millis
          steady_debug [OF steady_extends] split: option.splits)
  then show ?thesis by (simp add: holds_def t0_def)
qed

lemma sketch_begins:
  assumes "trace s = []"
  shows "\<exists>ev. trace (snd (sketch fuel E n s)) = Motor Stop # ev"
proof -
  define t0 where "t0 = [Motor Stop]"
  have "holds (\<lambda>tr d a. \<exists>ev. tr = t0 @ ev) (snd (sketch fuel E n s))"
  proof (induction n)
    case 0
    from setup_begins [OF assms] show ?case by (simp add: holds_def t0_def)
  next
    case (Suc n)
    then show ?case
      by (simp add: steady_andThen steady_loop [OF steady_extends])
  qed
  then show ?thesis by (simp add: holds_def t0_def)
qed

lemma drive_from_rest:
  assumes sep: "stop_between (cmds tr)" and first: "tr = Motor Stop # ev"
    and k: "k < length tr" and drive: "tr ! k = Motor Forward \<or> tr ! k = Motor Backward"
  shows "actuator_at s0 tr k = Some Stop"
proof -
  from drive obtain c where c: "tr ! k = Motor c" and on: "c \<noteq> Stop" by auto
  from first c on have "k \<noteq> 0" by (cases k) auto
  then obtain j where j: "k = Suc j" by (cases k) auto
  with first have before: "cmds (take k tr) \<noteq> []" by simp
  from k c have "cmds (take (Suc k) tr) = cmds (take k tr) @ [c]"
    by (simp add: take_Suc_conv_app_nth)
  moreover from sep have "stop_between (cmds (take (Suc k) tr))" by (rule stop_between_take)
  ultimately have "last (cmds (take k tr)) = Stop"
    using before on by (simp add: stop_between_snoc)
  with before show ?thesis
    by (simp add: actuator_at_def actuator_replay)
qed

lemma some_command: "Some (c :: cmd) \<in> {Some Forward, Some Backward, Some Stop}"
  by (cases c) simp_all

lemma defined_after_first:
  assumes first: "tr = Motor Stop # ev" and k: "0 < k"
  shows "actuator_at s0 tr k \<in> {Some Forward, Some Backward, Some Stop}"
proof -
  from k obtain j where "k = Suc j" by (cases k) auto
  with first have "cmds (take k tr) \<noteq> []" by simp
  then show ?thesis
    by (simp only: actuator_at_def actuator_replay if_False some_command)
qed

lemma both_ways_acquire: "acquire maxTimeout both_ways NO_PITCH s = pollPitch both_ways s"
  by (rule acquire_succeeds)
    (simp_all add: maxTimeout_def invalid_pitch_def NO_PITCH_def both_ways_def)

lemma both_ways_adjust:
  assumes "pitchReads s = 0"
  shows "adjust 2 both_ways AdjustToZero s =
     (Some Reached, 0,
      debug Stabilized (stopMotor
        (debug (CurrentPitch 0) (snd (pollPitch both_ways
          (delay 1000 (stopMotor (delay 200 (moveMotorBackward (debug MovingUp
            (debug (CurrentPitch (- 1)) (snd (pollPitch both_ways
              (delay 1000 (stopMotor (delay 200 (moveMotorForward (debug MovingDown
                (debug (InitialPitch 1) (snd (pollPitch both_ways s)))))))))))))))))))))"
proof -
  define s1 where "s1 = debug (InitialPitch 1) (snd (pollPitch both_ways s))"
  define s2 where "s2 = delay 1000 (stopMotor (delay 200 (moveMotorForward (debug MovingDown s1))))"
  define s3 where "s3 = debug (CurrentPitch (- 1)) (snd (pollPitch both_ways s2))"
  define s4 where "s4 = delay 1000 (stopMotor (delay 200 (moveMotorBackward (debug MovingUp s3))))"
  define s5 where "s5 = debug (CurrentPitch 0) (snd (pollPitch both_ways s4))"
  have ok: "\<not> invalid_pitch 1" "\<not> invalid_pitch (- 1)" "\<not> invalid_pitch 0"
    by (simp_all add: invalid_pitch_def NO_PITCH_def)
  have off: "off_target AdjustToZero 1" "off_target AdjustToZero (- 1)" "\<not> off_target AdjustToZero 0"
    by (simp_all add: abs_macro_def)
  have r0: "pitchAt both_ways (pitchReads s) = 1"
    by (simp add: assms both_ways_def)
  have r2: "pitchAt both_ways (pitchReads s2) = - 1"
    by (simp add: s2_def s1_def assms both_ways_def)
  have r4: "pitchAt both_ways (pitchReads s4) = 0"
    by (simp add: s4_def s3_def s2_def s1_def assms both_ways_def)
  have a0: "acquire maxTimeout both_ways NO_PITCH s = (1, snd (pollPitch both_ways s))"
    by (simp add: both_ways_acquire prod_eq_iff r0)
  have a2: "acquire maxTimeout both_ways NO_PITCH s2 = (- 1, snd (pollPitch both_ways s2))"
    by (simp add: both_ways_acquire prod_eq_iff r2)
  have a4: "acquire maxTimeout both_ways NO_PITCH s4 = (0, snd (pollPitch both_ways s4))"
    by (simp add: both_ways_acquire prod_eq_iff r4)
  have l5: "adjust_loop 0 both_ways AdjustToZero 0 s5 = (Some Reached, 0, s5)"
    using off by simp
  have m2: "settle both_ways AdjustToZero (stopMotor (pulse both_ways AdjustToZero 1
        (drive AdjustToZero 1 s1))) = s2"
    by (simp add: s2_def pulse_def settle_def)
  have m4: "settle both_ways AdjustToZero (stopMotor (pulse both_ways AdjustToZero (- 1)
        (drive AdjustToZero (- 1) s3))) = s4"
    by (simp add: s4_def pulse_def settle_def)
  have l3: "adjust_loop (Suc 0) both_ways AdjustToZero (- 1) s3 = (Some Reached, 0, s5)"
    unfolding adjust_loop.simps(2) [of 0 both_ways AdjustToZero "- 1" s3] Let_def m4 a4
    using off ok by (simp add: l5 s5_def [symmetric] del: off_target.simps)
  have l1: "adjust_loop (Suc (Suc 0)) both_ways AdjustToZero 1 s1 = (Some Reached, 0, s5)"
    unfolding adjust_loop.simps(2) [of "Suc 0" both_ways AdjustToZero 1 s1] Let_def m2 a2
    using off ok by (simp add: l3 s3_def [symmetric] del: off_target.simps adjust_loop.simps)
  have "adjust (Suc (Suc 0)) both_ways AdjustToZero s
      = (Some Reached, 0, finish both_ways AdjustToZero s5)"
    unfolding adjust_def Let_def a0
    using ok by (simp add: s1_def [symmetric] l1 del: adjust_loop.simps off_target.simps)
  then show ?thesis
    by (simp add: numeral_2_eq_2 finish_def s5_def s4_def s3_def s2_def s1_def
          del: adjust_loop.simps)
qed

lemma both_ways_run:
  "trace (snd (sketch 2 both_ways 0 power_on)) =
     [Motor Stop, Debug (Note ''# Adjusting actuator to achieve 0-degree pitch...''),
      PitchRead, Debug (InitialPitch 1), Debug MovingDown, Motor Forward, Delay 200,
      Motor Stop, Delay 1000, PitchRead, Debug (CurrentPitch (- 1)), Debug MovingUp,
      Motor Backward, Delay 200, Motor Stop, Delay 1000, PitchRead, Debug (CurrentPitch 0),
      Motor Stop, Debug Stabilized,
      Debug (Note ''# Pitch is now 0 degrees. Starting test motion...'')]"
proof -
  let ?s3 = "debug (Note ''# Adjusting actuator to achieve 0-degree pitch...'')
               (stopMotor (power_on\<lparr>headersWritten := False\<rparr>))"
  have "pitchReads ?s3 = 0"
    by (simp add: power_on_def)
  note run = both_ways_adjust [OF this]
  have "trace (power_on\<lparr>headersWritten := False\<rparr>) = []"
    by (simp add: power_on_def)
  then show ?thesis
    unfolding sketch.simps setup_sketch_def adjustToZeroPitch_def Let_def run
    by (simp add: millis_def)
qed

text \<open>
  C9. Each of the three commands leaves the pins in exactly the state it names. In a
  run of the sketch from power-on (\<open>setup\<close>, then \<open>loop\<close> any number of times, in any
  surroundings, for any bound on the adjusting loops), the first event is the
  \<open>stopMotor\<close> of \<open>setup\<close>. After every event from then on, that is for every prefix of
  the events of the run, the pins are in one of the three states forward, backward and
  stopped; for the whole run they are what the pins of the state reached are. Whenever a
  command switches the actuator on, the actuator is stopped at that moment. No command
  that switches the actuator on is directly followed by another one, in the run and in
  every prefix of it: between any two of them there is a \<open>stopMotor\<close>. Every step of the
  sequencer leaves the actuator stopped. A command is one step here: the state is read
  between commands, not between the three pin writes of one command.
\<close>

theorem drive_commands_separated:
  "(trace s0 = [] \<longrightarrow>
     (let s = snd (sketch fuel E n s0); tr = trace s; cs = cmds tr in
        stop_between cs \<and>
        (\<forall>i j. i < j \<and> j < length cs \<and> cs ! i \<noteq> Stop \<and> cs ! j \<noteq> Stop
            \<longrightarrow> (\<exists>k. i < k \<and> k < j \<and> cs ! k = Stop)) \<and>
        actuator s = Some Stop \<and>
        (\<exists>rest. tr = Motor Stop # rest) \<and>
        (\<forall>k. 0 < k \<and> k \<le> length tr
            \<longrightarrow> actuator_at s0 tr k \<in> {Some Forward, Some Backward, Some Stop}) \<and>
        (\<forall>k. k < length tr \<and> (tr ! k = Motor Forward \<or> tr ! k = Motor Backward)
            \<longrightarrow> actuator_at s0 tr k = Some Stop) \<and>
        (\<forall>k. stop_between (cmds (take k tr))) \<and>
        actuator_at s0 tr (length tr) = actuator s)) \<and>
   actuator (moveMotorForward s1) = Some Forward \<and>
   actuator (moveMotorBackward s1) = Some Backward \<and>
   actuator (stopMotor s1) = Some Stop"
proof -
  let ?s = "snd (sketch fuel E n s0)"
  have run: "stop_between (cmds (trace ?s)) \<and> last (cmds (trace ?s)) = Stop \<and>
      actuator ?s = Some Stop \<and> (\<exists>rest. trace ?s = Motor Stop # rest)" if "trace s0 = []"
    using steady_sketch [OF steady_motor, where s = s0 and E = E and fuel = fuel and n = n]
      sketch_begins [OF that, of fuel E n] that
    by (simp add: holds_def)
  have whole: "trace s0 = [] \<longrightarrow>
     (let s = ?s; tr = trace s; cs = cmds tr in
        stop_between cs \<and>
        (\<forall>i j. i < j \<and> j < length cs \<and> cs ! i \<noteq> Stop \<and> cs ! j \<noteq> Stop
            \<longrightarrow> (\<exists>k. i < k \<and> k < j \<and> cs ! k = Stop)) \<and>
        actuator s = Some Stop \<and>
        (\<exists>rest. tr = Motor Stop # rest) \<and>
        (\<forall>k. 0 < k \<and> k \<le> length tr
            \<longrightarrow> actuator_at s0 tr k \<in> {Some Forward, Some Backward, Some Stop}) \<and>
        (\<forall>k. k < length tr \<and> (tr ! k = Motor Forward \<or> tr ! k = Motor Backward)
            \<longrightarrow> actuator_at s0 tr k = Some Stop) \<and>
        (\<forall>k. stop_between (cmds (take k tr))) \<and>
        actuator_at s0 tr (length tr) = actuator s)"
    unfolding Let_def
  proof (rule impI)
    assume fresh: "trace s0 = []"
    from run [OF fresh] obtain rest where sep: "stop_between (cmds (trace ?s))"
      and final: "last (cmds (trace ?s)) = Stop"
      and rest: "actuator ?s = Some Stop" and first: "trace ?s = Motor Stop # rest" by blast
    have a: "\<forall>i j. i < j \<and> j < length (cmds (trace ?s)) \<and> cmds (trace ?s) ! i \<noteq> Stop \<and> cmds (trace ?s) ! j \<noteq> Stop
            \<longrightarrow> (\<exists>k. i < k \<and> k < j \<and> cmds (trace ?s) ! k = Stop)"
      using sep by (blast dest: stop_between_any)
    have b: "\<forall>k. 0 < k \<and> k \<le> length (trace ?s)
            \<longrightarrow> actuator_at s0 (trace ?s) k \<in> {Some Forward, Some Backward, Some Stop}"
      using defined_after_first [OF first] by blast
    have c: "\<forall>k. k < length (trace ?s) \<and> (trace ?s ! k = Motor Forward \<or> trace ?s ! k = Motor Backward)
            \<longrightarrow> actuator_at s0 (trace ?s) k = Some Stop"
      using drive_from_rest [OF sep first] by blast
    have d: "\<forall>k. stop_between (cmds (take k (trace ?s)))"
      using sep by (blast intro: stop_between_take)
    have "cmds (trace ?s) \<noteq> []" using first by simp
    with final rest have e: "actuator_at s0 (trace ?s) (length (trace ?s)) = actuator ?s"
      by (simp add: actuator_at_def actuator_replay)
    from sep rest first a b c d e
    show "stop_between (cmds (trace ?s)) \<and>
        (\<forall>i j. i < j \<and> j < length (cmds (trace ?s)) \<and> cmds (trace ?s) ! i \<noteq> Stop \<and> cmds (trace ?s) ! j \<noteq> Stop
            \<longrightarrow> (\<exists>k. i < k \<and> k < j \<and> cmds (trace ?s) ! k = Stop)) \<and>
        actuator ?s = Some Stop \<and>
        (\<exists>rest. trace ?s = Motor Stop # rest) \<and>
        (\<forall>k. 0 < k \<and> k \<le> length (trace ?s)
            \<longrightarrow> actuator_at s0 (trace ?s) k \<in> {Some Forward, Some Backward, Some Stop}) \<and>
        (\<forall>k. k < length (trace ?s) \<and> (trace ?s ! k = Motor Forward \<or> trace ?s ! k = Motor Backward)
            \<longrightarrow> actuator_at s0 (trace ?s) k = Some Stop) \<and>
        (\<forall>k. stop_between (cmds (take k (trace ?s)))) \<and>
        actuator_at s0 (trace ?s) (length (trace ?s)) = actuator ?s"
      by (intro conjI) blast+
  qed
  show ?thesis
    by (rule conjI [OF whole]) (simp only: actuator_commands simp_thms)
qed

theorem drive_commands_separated_witness:
  "cmds (trace (snd (sketch 2 both_ways 0 power_on)))
     = [Stop, Forward, Stop, Backward, Stop, Stop] \<and>
   stop_between (cmds (trace (snd (sketch 2 both_ways 0 power_on)))) \<and>
   actuator (snd (sketch 2 both_ways 0 power_on)) = Some Stop \<and>
   trace (snd (sketch 2 both_ways 0 power_on)) ! 5 = Motor Forward \<and>
   actuator_at power_on (trace (snd (sketch 2 both_ways 0 power_on))) 5 = Some Stop \<and>
   actuator_at power_on (trace (snd (sketch 2 both_ways 0 power_on))) 6 = Some Forward \<and>
   trace (snd (sketch 2 both_ways 0 power_on)) ! 12 = Motor Backward \<and>
   actuator_at power_on (trace (snd (sketch 2 both_ways 0 power_on))) 12 = Some Stop \<and>
   actuator_at power_on (trace (snd (sketch 2 both_ways 0 power_on))) 13 = Some Backward \<and>
   actuator (moveMotorBackward power_on) = Some Backward"
proof -
  let ?tr = "trace (snd (sketch 2 both_ways 0 power_on))"
  have fresh: "trace power_on = []" by (simp add: power_on_def)
  have at5: "?tr ! 5 = Motor Forward" and at12: "?tr ! 12 = Motor Backward"
    and len: "5 < length ?tr" "12 < length ?tr"
    and commands: "cmds ?tr = [Stop, Forward, Stop, Backward, Stop, Stop]"
    unfolding both_ways_run by simp_all
  have after: "actuator_at power_on ?tr 6 = Some Forward"
      "actuator_at power_on ?tr 13 = Some Backward"
    unfolding both_ways_run by (simp_all add: actuator_at_def actuator_replay)
  note all = drive_commands_separated [of power_on 2 both_ways 0 power_on]
  note run = all [THEN conjunct1, THEN mp, OF fresh, unfolded Let_def]
  note sep = run [THEN conjunct1]
  note rest = run [THEN conjunct2, THEN conjunct2, THEN conjunct1]
  note drives = run [THEN conjunct2, THEN conjunct2, THEN conjunct2, THEN conjunct2,
      THEN conjunct2, THEN conjunct1, rule_format]
  from drives [of 5] len at5 have before5: "actuator_at power_on ?tr 5 = Some Stop" by blast
  from drives [of 12] len at12 have before12: "actuator_at power_on ?tr 12 = Some Stop" by blast
  from all [THEN conjunct2, THEN conjunct2, THEN conjunct1] sep rest commands at5 at12 after
    before5 before12
  show ?thesis by (simp only: simp_thms)
qed

section \<open>Before the first frame\<close>

lemma steady_placeholder_run:
  assumes "\<forall>k. no_full_frame E k"
  shows "lastValidData (snd (sketch fuel E n power_on)) = noData \<and>
     set (columns (trace (snd (sketch fuel E n power_on)))) \<subseteq> {(''No Data'', ''No Data'', ''No Data'')}"
  using steady_sketch [OF steady_placeholder [OF assms], where s = power_on and fuel = fuel and n = n]
  by (simp add: holds_def power_on_def)

lemma poll_bus_placeholder:
  "lastValidData s = noData \<Longrightarrow> (\<forall>k<n. no_full_frame E (canReads s + k)) \<Longrightarrow>
     poll_bus E n s = replicate n noData"
proof (induction n arbitrary: s)
  case 0
  show ?case by simp
next
  case (Suc n)
  from Suc.prems(2) [rule_format, of 0] have now: "no_full_frame E (canReads s)"
    by simp
  with Suc.prems(1) have first: "fst (readCANData E s) = noData"
    by (simp add: can_cache no_full_frame_def split: option.splits)
  have later: "\<forall>k<n. no_full_frame E (canReads (snd (readCANData E s)) + k)"
  proof (intro allI impI)
    fix k
    assume "k < n"
    then have "Suc k < Suc n" by simp
    from Suc.prems(2) [rule_format, OF this]
    show "no_full_frame E (canReads (snd (readCANData E s)) + k)" by simp
  qed
  from first have "lastValidData (snd (readCANData E s)) = noData" by simp
  from Suc.IH [OF this later] first show ?case by simp
qed

text \<open>
  C10. While the cache holds its initial value and no frame of six bytes or more is
  pending, \<open>readCANData\<close> returns \<open>No Data\<close> in all three fields with the sensor marked
  invalid and keeps the cache; so does every call of a row of calls before the first
  such frame. A row written by \<open>streamCSVData\<close> then carries \<open>No Data\<close> in its fuel and
  temperature columns, and in a run from power-on in which no such frame ever arrives,
  every row does.
\<close>

theorem placeholder_before_first_frame:
  "(lastValidData s = noData \<and> no_full_frame E (canReads s) \<longrightarrow>
      fst (readCANData E s) = noData \<and> lastValidData (snd (readCANData E s)) = noData) \<and>
   (lastValidData s = noData \<and> (\<forall>k<m. no_full_frame E (canReads s + k)) \<longrightarrow>
      poll_bus E m s = replicate m noData) \<and>
   (lastValidData s = noData \<and> no_full_frame E (canReads s) \<and> \<not> invalid_pitch (pitchAt E (pitchReads s)) \<longrightarrow>
      columns (trace (streamCSVData E phase direction s)) =
        columns (trace s) @ [(''No Data'', ''No Data'', ''No Data'')]) \<and>
   ((\<forall>k. no_full_frame E k) \<longrightarrow>
      lastValidData (snd (sketch fuel E n power_on)) = noData \<and>
      set (columns (trace (snd (sketch fuel E n power_on)))) \<subseteq> {(''No Data'', ''No Data'', ''No Data'')})"
proof (intro conjI impI)
  assume a: "lastValidData s = noData \<and> no_full_frame E (canReads s)"
  then show "fst (readCANData E s) = noData"
    by (simp add: can_cache no_full_frame_def split: option.splits)
  then show "lastValidData (snd (readCANData E s)) = noData"
    by simp
next
  assume "lastValidData s = noData \<and> (\<forall>k<m. no_full_frame E (canReads s + k))"
  then show "poll_bus E m s = replicate m noData"
    by (simp add: poll_bus_placeholder)
next
  assume a: "lastValidData s = noData \<and> no_full_frame E (canReads s) \<and> \<not> invalid_pitch (pitchAt E (pitchReads s))"
  then have "lastValidData (streamCSVData E phase direction s) = noData"
    by (simp add: stream_cache no_full_frame_def split: option.splits)
  with a show "columns (trace (streamCSVData E phase direction s)) =
        columns (trace s) @ [(''No Data'', ''No Data'', ''No Data'')]"
    by (simp add: stream_columns) (simp add: noData_def)
next
  assume a: "\<forall>k. no_full_frame E k"
  from steady_placeholder_run [OF a]
  show "lastValidData (snd (sketch fuel E n power_on)) = noData"
    and "set (columns (trace (snd (sketch fuel E n power_on)))) \<subseteq> {(''No Data'', ''No Data'', ''No Data'')}"
    by simp_all
qed

theorem placeholder_before_first_frame_witness:
  "fst (readCANData (silent\<lparr>pitchAt := \<lambda>k. 0, canAt := \<lambda>k. Some [1, 2, 3]\<rparr>) power_on) = noData \<and>
   poll_bus (silent\<lparr>pitchAt := \<lambda>k. 0, canAt := \<lambda>k. Some [1, 2, 3]\<rparr>) 2 power_on = [noData, noData] \<and>
   columns (trace (streamCSVData (silent\<lparr>pitchAt := \<lambda>k. 0, canAt := \<lambda>k. Some [1, 2, 3]\<rparr>)
       ''Stationary1'' ''None'' power_on)) = [(''No Data'', ''No Data'', ''No Data'')] \<and>
   lastValidData (snd (sketch 2 (silent\<lparr>pitchAt := \<lambda>k. 0, canAt := \<lambda>k. Some [1, 2, 3]\<rparr>) 1 power_on)) = noData"
proof -
  let ?E = "silent\<lparr>pitchAt := \<lambda>k. 0, canAt := \<lambda>k. Some [1, 2, 3]\<rparr>"
  note all = placeholder_before_first_frame [of power_on ?E 2 "''Stationary1''" "''None''" 2 1]
  have never: "\<forall>k. no_full_frame ?E k"
    by (simp add: no_full_frame_def)
  have start: "lastValidData power_on = noData \<and> no_full_frame ?E (canReads power_on)"
    by (simp add: power_on_def no_full_frame_def)
  have twice: "lastValidData power_on = noData \<and> (\<forall>k<2. no_full_frame ?E (canReads power_on + k))"
    by (simp add: power_on_def no_full_frame_def)
  have valid: "lastValidData power_on = noData \<and> no_full_frame ?E (canReads power_on) \<and>
      \<not> invalid_pitch (pitchAt ?E (pitchReads power_on))"
    by (simp add: power_on_def no_full_frame_def invalid_pitch_def NO_PITCH_def)
  have fresh: "columns (trace power_on) = []" by (simp add: power_on_def)
  have two: "replicate 2 noData = [noData, noData]" by (simp add: numeral_2_eq_2)
  from all [THEN conjunct1, THEN mp, OF start, THEN conjunct1]
    all [THEN conjunct2, THEN conjunct1, THEN mp, OF twice]
    all [THEN conjunct2, THEN conjunct2, THEN conjunct1, THEN mp, OF valid]
    all [THEN conjunct2, THEN conjunct2, THEN conjunct2, THEN mp, OF never, THEN conjunct1]
  show ?thesis
    by (simp add: fresh two)
qed

end
